theory Spec2Isabelle
  imports Main "HOL-Library.AList"
begin

section \<open>Runtime values\<close>

text \<open>
  The values that travel through the compiled functions are JavaScript values: the
  argument bag of a resolver, the values stored in it, the configuration objects stored in
  a definition's \<open>extensions\<close>, and what a property read finds on a prototype. An object is
  the list of its own enumerable properties in property order. It is an ordinary object,
  whose prototype is \<open>Object.prototype\<close> (an object literal, the result of a spread), or an
  object without prototype (\<open>Object.create(null)\<close>). Numbers are only carried around and
  tested for being zero, so they are integers here.
\<close>

text \<open>
  The built-in objects that a property read can reach from such a value: the prototypes
  of the six kinds of value, their constructors, the functions found on either, and the
  number constants that are no integers. A function is named by where it is found, its
  \<open>name\<close> and its \<open>length\<close>.
\<close>

datatype intrinsic = IObject | IFunction | IArray | IString | INumber | IBoolean

datatype builtin =
    Prototype intrinsic
  | Constructor intrinsic
  | PrototypeMethod intrinsic string nat
  | StaticMethod intrinsic string nat
  | NumberConstant string

datatype jsValue =
    VUndefined
  | VNull
  | VBool bool
  | VNum int
  | VStr string
  | VList "jsValue list"
  | VObj "(string \<times> jsValue) list"
  | VBare "(string \<times> jsValue) list"
  | VBuiltin builtin

text \<open>What a call can throw: the runtime's \<open>TypeError\<close>, or whatever a caller's function throws.\<close>

datatype error = TypeError | Thrown jsValue

text \<open>
  A TypeScript value of type \<open>T\<close> is, at run time, \<open>undefined\<close>, \<open>null\<close> or a proper
  value of \<open>T\<close>: \<open>buildResolverMiddleware\<close> itself passes \<open>null\<close> where a \<open>T\<close> is asked for.
\<close>

datatype 'a maybe = Undefined | Null | Defined 'a

text \<open>The test \<open>v === undefined\<close>, which needs no equality on \<open>T\<close>.\<close>

fun isUndefined :: "'a maybe \<Rightarrow> bool" where
  "isUndefined Undefined = True"
| "isUndefined Null = False"
| "isUndefined (Defined x) = False"

text \<open>Among the built-in objects only \<open>Number.NaN\<close> is falsy.\<close>

fun truthy :: "jsValue \<Rightarrow> bool" where
  "truthy VUndefined = False"
| "truthy VNull = False"
| "truthy (VBool b) = b"
| "truthy (VNum n) = (n \<noteq> 0)"
| "truthy (VStr s) = (s \<noteq> [])"
| "truthy (VList xs) = True"
| "truthy (VObj kvs) = True"
| "truthy (VBare kvs) = True"
| "truthy (VBuiltin b) = (b \<noteq> NumberConstant ''NaN'')"

definition lookupProp :: "(string \<times> jsValue) list \<Rightarrow> string \<Rightarrow> jsValue" where
  "lookupProp props name = (case map_of props name of None \<Rightarrow> VUndefined | Some v \<Rightarrow> v)"

fun toDecimal :: "nat \<Rightarrow> string" where
  "toDecimal n =
     (if n < 10 then [''0123456789'' ! n]
      else toDecimal (n div 10) @ [''0123456789'' ! (n mod 10)])"

declare toDecimal.simps [simp del]

text \<open>
  The own enumerable properties an object spread \<open>{...v}\<close> copies. The properties of the
  built-in objects are not enumerable.
\<close>

fun ownEntries :: "jsValue \<Rightarrow> (string \<times> jsValue) list" where
  "ownEntries (VObj kvs) = kvs"
| "ownEntries (VBare kvs) = kvs"
| "ownEntries (VList xs) = zip (map toDecimal [0..<length xs]) xs"
| "ownEntries (VStr s) = zip (map toDecimal [0..<length s]) (map (\<lambda>c. VStr [c]) s)"
| "ownEntries v = []"

subsection \<open>The built-in objects\<close>

text \<open>
  The own properties of the built-in objects with string names, as the language standard
  lists them (ECMAScript 2023, with its annex of legacy members): a property holds a
  number, a string or a built-in object, or it is the accessor \<open>__proto__\<close>, whose value
  is the prototype of the object that is read. The accessors \<open>caller\<close> and \<open>arguments\<close> of
  \<open>Function.prototype\<close>, which throw, are dealt with in \<open>getProperty\<close>.
\<close>

datatype member = MNum int | MStr string | MBuiltin builtin | MPrototypeOf

definition methods :: "(string \<Rightarrow> nat \<Rightarrow> builtin) \<Rightarrow> (string \<times> nat) list \<Rightarrow> (string \<times> member) list" where
  "methods mk table = map (\<lambda>(name, len). (name, MBuiltin (mk name len))) table"

fun intrinsicName :: "intrinsic \<Rightarrow> string" where
  "intrinsicName IObject = ''Object''"
| "intrinsicName IFunction = ''Function''"
| "intrinsicName IArray = ''Array''"
| "intrinsicName IString = ''String''"
| "intrinsicName INumber = ''Number''"
| "intrinsicName IBoolean = ''Boolean''"

fun prototypeMembers :: "intrinsic \<Rightarrow> (string \<times> member) list" where
  "prototypeMembers IObject =
     (''constructor'', MBuiltin (Constructor IObject)) #
     (''__proto__'', MPrototypeOf) #
     methods (PrototypeMethod IObject)
       [(''__defineGetter__'', 2), (''__defineSetter__'', 2), (''hasOwnProperty'', 1),
        (''__lookupGetter__'', 1), (''__lookupSetter__'', 1), (''isPrototypeOf'', 1),
        (''propertyIsEnumerable'', 1), (''toString'', 0), (''valueOf'', 0),
        (''toLocaleString'', 0)]"
| "prototypeMembers IFunction =
     (''length'', MNum 0) # (''name'', MStr []) #
     (''constructor'', MBuiltin (Constructor IFunction)) #
     methods (PrototypeMethod IFunction)
       [(''apply'', 2), (''bind'', 1), (''call'', 1), (''toString'', 0)]"
| "prototypeMembers IArray =
     (''length'', MNum 0) #
     (''constructor'', MBuiltin (Constructor IArray)) #
     methods (PrototypeMethod IArray)
       [(''at'', 1), (''concat'', 1), (''copyWithin'', 2), (''entries'', 0), (''every'', 1),
        (''fill'', 1), (''filter'', 1), (''find'', 1), (''findIndex'', 1), (''findLast'', 1),
        (''findLastIndex'', 1), (''flat'', 0), (''flatMap'', 1), (''forEach'', 1),
        (''includes'', 1), (''indexOf'', 1), (''join'', 1), (''keys'', 0),
        (''lastIndexOf'', 1), (''map'', 1), (''pop'', 0), (''push'', 1), (''reduce'', 1),
        (''reduceRight'', 1), (''reverse'', 0), (''shift'', 0), (''slice'', 2), (''some'', 1),
        (''sort'', 1), (''splice'', 2), (''toLocaleString'', 0), (''toReversed'', 0),
        (''toSorted'', 1), (''toSpliced'', 2), (''toString'', 0), (''unshift'', 1),
        (''values'', 0), (''with'', 2)]"
| "prototypeMembers IString =
     (''length'', MNum 0) #
     (''constructor'', MBuiltin (Constructor IString)) #
     (''trimLeft'', MBuiltin (PrototypeMethod IString ''trimStart'' 0)) #
     (''trimRight'', MBuiltin (PrototypeMethod IString ''trimEnd'' 0)) #
     methods (PrototypeMethod IString)
       [(''anchor'', 1), (''at'', 1), (''big'', 0), (''blink'', 0), (''bold'', 0),
        (''charAt'', 1), (''charCodeAt'', 1), (''codePointAt'', 1), (''concat'', 1),
        (''endsWith'', 1), (''fixed'', 0), (''fontcolor'', 1), (''fontsize'', 1),
        (''includes'', 1), (''indexOf'', 1), (''italics'', 0), (''lastIndexOf'', 1),
        (''link'', 1), (''localeCompare'', 1), (''match'', 1), (''matchAll'', 1),
        (''normalize'', 0), (''padEnd'', 1), (''padStart'', 1), (''repeat'', 1),
        (''replace'', 2), (''replaceAll'', 2), (''search'', 1), (''slice'', 2),
        (''small'', 0), (''split'', 2), (''startsWith'', 1), (''strike'', 0), (''sub'', 0),
        (''substr'', 2), (''substring'', 2), (''sup'', 0), (''toLocaleLowerCase'', 0),
        (''toLocaleUpperCase'', 0), (''toLowerCase'', 0), (''toString'', 0),
        (''toUpperCase'', 0), (''trim'', 0), (''trimEnd'', 0), (''trimStart'', 0),
        (''valueOf'', 0)]"
| "prototypeMembers INumber =
     (''constructor'', MBuiltin (Constructor INumber)) #
     methods (PrototypeMethod INumber)
       [(''toExponential'', 1), (''toFixed'', 1), (''toLocaleString'', 0),
        (''toPrecision'', 1), (''toString'', 1), (''valueOf'', 0)]"
| "prototypeMembers IBoolean =
     (''constructor'', MBuiltin (Constructor IBoolean)) #
     methods (PrototypeMethod IBoolean) [(''toString'', 0), (''valueOf'', 0)]"

fun staticMembers :: "intrinsic \<Rightarrow> (string \<times> member) list" where
  "staticMembers IObject =
     methods (StaticMethod IObject)
       [(''assign'', 2), (''create'', 2), (''defineProperties'', 2), (''defineProperty'', 3),
        (''entries'', 1), (''freeze'', 1), (''fromEntries'', 1),
        (''getOwnPropertyDescriptor'', 2), (''getOwnPropertyDescriptors'', 1),
        (''getOwnPropertyNames'', 1), (''getOwnPropertySymbols'', 1), (''getPrototypeOf'', 1),
        (''hasOwn'', 2), (''is'', 2), (''isExtensible'', 1), (''isFrozen'', 1),
        (''isSealed'', 1), (''keys'', 1), (''preventExtensions'', 1), (''seal'', 1),
        (''setPrototypeOf'', 2), (''values'', 1)]"
| "staticMembers IArray =
     methods (StaticMethod IArray) [(''from'', 1), (''isArray'', 1), (''of'', 0)]"
| "staticMembers IString =
     methods (StaticMethod IString) [(''fromCharCode'', 1), (''fromCodePoint'', 1), (''raw'', 1)]"
| "staticMembers INumber =
     (''MAX_SAFE_INTEGER'', MNum 9007199254740991) #
     (''MIN_SAFE_INTEGER'', MNum (- 9007199254740991)) #
     map (\<lambda>name. (name, MBuiltin (NumberConstant name)))
       [''EPSILON'', ''MAX_VALUE'', ''MIN_VALUE'', ''NaN'', ''NEGATIVE_INFINITY'',
        ''POSITIVE_INFINITY''] @
     methods (StaticMethod INumber)
       [(''isFinite'', 1), (''isInteger'', 1), (''isNaN'', 1), (''isSafeInteger'', 1),
        (''parseFloat'', 1), (''parseInt'', 2)]"
| "staticMembers i = []"

fun ownMembers :: "builtin \<Rightarrow> (string \<times> member) list" where
  "ownMembers (Prototype i) = prototypeMembers i"
| "ownMembers (Constructor i) =
     (''length'', MNum 1) # (''name'', MStr (intrinsicName i)) #
     (''prototype'', MBuiltin (Prototype i)) # staticMembers i"
| "ownMembers (PrototypeMethod i name len) = [(''length'', MNum (int len)), (''name'', MStr name)]"
| "ownMembers (StaticMethod i name len) = [(''length'', MNum (int len)), (''name'', MStr name)]"
| "ownMembers (NumberConstant name) = []"

text \<open>The prototype chain of a built-in object, nearest first, and what can be called.\<close>

fun prototypeChain :: "builtin \<Rightarrow> builtin list" where
  "prototypeChain (Prototype IObject) = []"
| "prototypeChain (Prototype i) = [Prototype IObject]"
| "prototypeChain (NumberConstant name) = [Prototype INumber, Prototype IObject]"
| "prototypeChain b = [Prototype IFunction, Prototype IObject]"

fun callable :: "builtin \<Rightarrow> bool" where
  "callable (Prototype i) = (i = IFunction)"
| "callable (NumberConstant name) = False"
| "callable b = True"

text \<open>
  The first object of a chain that has the property, and the value the property then
  has for a receiver with the prototype chain \<open>chain\<close>.
\<close>

fun findMember :: "builtin list \<Rightarrow> string \<Rightarrow> member option" where
  "findMember [] name = None"
| "findMember (b # bs) name =
     (case map_of (ownMembers b) name of Some m \<Rightarrow> Some m | None \<Rightarrow> findMember bs name)"

fun memberValue :: "builtin list \<Rightarrow> member \<Rightarrow> jsValue" where
  "memberValue chain (MNum n) = VNum n"
| "memberValue chain (MStr s) = VStr s"
| "memberValue chain (MBuiltin b) = VBuiltin b"
| "memberValue chain MPrototypeOf = (case chain of [] \<Rightarrow> VNull | p # ps \<Rightarrow> VBuiltin p)"

definition inherited :: "builtin list \<Rightarrow> string \<Rightarrow> jsValue" where
  "inherited chain name =
     (case findMember chain name of None \<Rightarrow> VUndefined | Some m \<Rightarrow> memberValue chain m)"

subsection \<open>Reading a property\<close>

text \<open>
  The property read \<open>v[name]\<close>. It throws on \<open>undefined\<close> and \<open>null\<close>. On any other value
  it finds an own property, or else the property of the first object on the prototype
  chain that has one, or else \<open>undefined\<close>. An ordinary object inherits from
  \<open>Object.prototype\<close>, so that a name such as \<open>toString\<close> or \<open>constructor\<close> reads as a
  function where the object has no such property of its own.
\<close>

definition objectGet :: "(string \<times> jsValue) list \<Rightarrow> string \<Rightarrow> jsValue" where
  "objectGet props name =
     (case map_of props name of Some v \<Rightarrow> v | None \<Rightarrow> inherited [Prototype IObject] name)"

fun getProperty :: "jsValue \<Rightarrow> string \<Rightarrow> error + jsValue" where
  "getProperty VUndefined name = Inl TypeError"
| "getProperty VNull name = Inl TypeError"
| "getProperty (VObj props) name = Inr (objectGet props name)"
| "getProperty (VBare props) name = Inr (lookupProp props name)"
| "getProperty (VList xs) name =
     Inr (if name = ''length'' then VNum (int (length xs))
          else (case map_of (ownEntries (VList xs)) name of
                  Some v \<Rightarrow> v
                | None \<Rightarrow> inherited [Prototype IArray, Prototype IObject] name))"
| "getProperty (VStr s) name =
     Inr (if name = ''length'' then VNum (int (length s))
          else (case map_of (ownEntries (VStr s)) name of
                  Some v \<Rightarrow> v
                | None \<Rightarrow> inherited [Prototype IString, Prototype IObject] name))"
| "getProperty (VNum n) name = Inr (inherited [Prototype INumber, Prototype IObject] name)"
| "getProperty (VBool b) name = Inr (inherited [Prototype IBoolean, Prototype IObject] name)"
| "getProperty (VBuiltin b) name =
     (if callable b \<and> (name = ''caller'' \<or> name = ''arguments'') then Inl TypeError
      else Inr (case findMember (b # prototypeChain b) name of
                  None \<Rightarrow> VUndefined
                | Some m \<Rightarrow> memberValue (prototypeChain b) m))"

section \<open>The argument definition tree\<close>

text \<open>
  The input types of a built schema: named scalar, enum and input object types, and the
  two wrapping types. A named type and an input field carry an optional \<open>extensions\<close>
  object; the wrapping types have none. The tree is finite: an input object type that
  refers to itself is outside the model.
\<close>

text \<open>
  An \<open>extensions\<close> object is an ordinary object, as the schema author writes it in an
  argument's configuration, or an object without prototype, as the GraphQL library keeps
  the copy it makes for a type or a field. The tree says which, at every position.
\<close>

datatype extensions =
    Ordinary "(string \<times> jsValue) list"
  | Prototypeless "(string \<times> jsValue) list"

fun extensionsValue :: "extensions \<Rightarrow> jsValue" where
  "extensionsValue (Ordinary props) = VObj props"
| "extensionsValue (Prototypeless props) = VBare props"

text \<open>The read \<open>extensions[name]\<close>, which cannot throw on an object.\<close>

fun readExtensions :: "extensions \<Rightarrow> string \<Rightarrow> jsValue" where
  "readExtensions (Ordinary props) name = objectGet props name"
| "readExtensions (Prototypeless props) name = lookupProp props name"

datatype gqlType =
    GraphQLScalarType string "extensions option"
  | GraphQLEnumType string "extensions option"
  | GraphQLInputObjectType string "extensions option" "(string \<times> inputField) list"
  | GraphQLList gqlType
  | GraphQLNonNull gqlType
and inputField = GraphQLInputField gqlType "extensions option"

text \<open>\<open>GraphQLArgumentConfig\<close>: the definition of one argument.\<close>

record argDef =
  type :: gqlType
  description :: "string option"
  defaultValue :: jsValue
  argExtensions :: "extensions option"

text \<open>\<open>ArgType\<close> is a type or an input field; \<open>Node\<close> adds a definition and the root record.\<close>

datatype argType = TypeRef gqlType | FieldRef inputField

datatype node =
    ArgDefNode argDef
  | ArgTypeNode argType
  | ArgDefsNode "(string \<times> argDef) list"

datatype nexusWrapKind = KNonNull | KNull | KList

fun fieldType :: "inputField \<Rightarrow> gqlType" where
  "fieldType (GraphQLInputField t e) = t"

fun fieldExtensions :: "inputField \<Rightarrow> extensions option" where
  "fieldExtensions (GraphQLInputField t e) = e"

fun typeExtensions :: "gqlType \<Rightarrow> extensions option" where
  "typeExtensions (GraphQLScalarType n e) = e"
| "typeExtensions (GraphQLEnumType n e) = e"
| "typeExtensions (GraphQLInputObjectType n e fs) = e"
| "typeExtensions (GraphQLList t) = None"
| "typeExtensions (GraphQLNonNull t) = None"

fun isWrappingType :: "gqlType \<Rightarrow> bool" where
  "isWrappingType (GraphQLList t) = True"
| "isWrappingType (GraphQLNonNull t) = True"
| "isWrappingType t = False"

fun isInputObjectType :: "gqlType \<Rightarrow> bool" where
  "isInputObjectType (GraphQLInputObjectType n e fs) = True"
| "isInputObjectType t = False"

fun getFields :: "gqlType \<Rightarrow> (string \<times> inputField) list" where
  "getFields (GraphQLInputObjectType n e fs) = fs"
| "getFields t = []"

text \<open>
  Modelled from the spec: the schema library's unwrap operation, which is not part of the
  repository. It peels the wrapper layers and returns the terminal named type with the
  wrapper kinds met on the way, outermost first. The walker's client only asks whether
  a kind occurs in the sequence, which is the same under any order.
\<close>

fun unwrapGraphQLDef :: "gqlType \<Rightarrow> gqlType \<times> nexusWrapKind list" where
  "unwrapGraphQLDef (GraphQLList t) =
     (let (namedType, wrapping) = unwrapGraphQLDef t in (namedType, KList # wrapping))"
| "unwrapGraphQLDef (GraphQLNonNull t) =
     (let (namedType, wrapping) = unwrapGraphQLDef t in (namedType, KNonNull # wrapping))"
| "unwrapGraphQLDef t = (t, [])"

text \<open>
  \<open>unwrapType\<close>: an input field is not a type, so its \<open>type\<close> is unwrapped instead. The
  arguments of a built schema hold GraphQL types only, so the branch for the schema
  builder's own wrapper definitions is never taken and has no counterpart here.
\<close>

function unwrapType :: "argType \<Rightarrow> gqlType \<times> nexusWrapKind list" where
  "unwrapType (FieldRef f) = unwrapType (TypeRef (fieldType f))"
| "unwrapType (TypeRef t) = (if isWrappingType t then unwrapGraphQLDef t else (t, []))"
  by pat_completeness auto
termination
  by (relation "measure (\<lambda>a. case a of FieldRef f \<Rightarrow> 1 | TypeRef t \<Rightarrow> 0)") auto

section \<open>The reduction over the tree\<close>

text \<open>
  \<open>NodeCtx\<close>, and the first argument of a reducer: the initial node value at a node
  without children, the record of the children's results at an input object and at the
  root. The keys of a record are distinct, so \<open>Object.fromEntries\<close> of the kept entries
  is the list of these entries itself.
\<close>

record 't nodeCtx =
  key :: "string option"
  wrapping :: "nexusWrapKind list"
  initialNodeValue :: "'t maybe"

datatype 't childValues = Initial "'t maybe" | ChildRecord "(string \<times> 't maybe) list"

type_synonym 't reducer = "'t childValues \<Rightarrow> node \<Rightarrow> 't nodeCtx \<Rightarrow> 't maybe"

fun argTypeSize :: "argType \<Rightarrow> nat" where
  "argTypeSize (TypeRef t) = size t"
| "argTypeSize (FieldRef f) = size f"

lemma size_unwrapGraphQLDef: "size (fst (unwrapGraphQLDef t)) \<le> size t"
  by (induction t rule: unwrapGraphQLDef.induct) (auto split: prod.splits)

lemma size_unwrapType: "size (fst (unwrapType a)) \<le> argTypeSize a"
proof (induction a rule: unwrapType.induct)
  case (1 f)
  then show ?case by (cases f) auto
next
  case (2 t)
  then show ?case using size_unwrapGraphQLDef [of t] by auto
qed

lemma size_getFields: "(k, f) \<in> set (getFields t) \<Longrightarrow> size f < size t"
  by (cases t) (auto simp: less_Suc_eq_le intro!: size_list_estimation' [where x = "(k, f)"])

function reduceOverArgType :: "argType \<Rightarrow> 't nodeCtx \<Rightarrow> 't reducer \<Rightarrow> 't maybe"
  and reduceOverWrappedType :: "gqlType \<Rightarrow> 't nodeCtx \<Rightarrow> 't reducer \<Rightarrow> 't maybe"
  and reduceOverObjectType :: "gqlType \<Rightarrow> 't nodeCtx \<Rightarrow> 't reducer \<Rightarrow> 't maybe"
where
  "reduceOverArgType argType ctx reducer =
     (let (namedType, wrapping') = unwrapType argType;
          nextValue = reducer (Initial (initialNodeValue ctx)) (ArgTypeNode argType)
                        (ctx\<lparr>wrapping := wrapping'\<rparr>)
      in if \<not> isUndefined nextValue then nextValue
         else reduceOverWrappedType namedType (ctx\<lparr>wrapping := wrapping'\<rparr>) reducer)"
| "reduceOverWrappedType argType ctx reducer =
     (let nextValue = reducer (Initial (initialNodeValue ctx)) (ArgTypeNode (TypeRef argType)) ctx
      in if \<not> isUndefined nextValue then nextValue
         else if isInputObjectType argType then reduceOverObjectType argType ctx reducer
         else Undefined)"
| "reduceOverObjectType argType ctx reducer =
     (let childValues =
            filter (\<lambda>(_, v). \<not> isUndefined v)
              (map (\<lambda>(key, argType).
                      (key, reduceOverArgType (FieldRef argType)
                              \<lparr>key = Some key, wrapping = [],
                               initialNodeValue = initialNodeValue ctx\<rparr> reducer))
                 (getFields argType))
      in reducer (ChildRecord childValues) (ArgTypeNode (TypeRef argType)) ctx)"
  by pat_completeness auto
termination
  apply (relation "inv_image (less_than <*lex*> less_than)
           (\<lambda>x. case x of
               Inl (a, c, r) \<Rightarrow> (argTypeSize a, 2)
             | Inr (Inl (t, c, r)) \<Rightarrow> (size t, 1)
             | Inr (Inr (t, c, r)) \<Rightarrow> (size t, 0))")
     apply (intro wf_inv_image wf_lex_prod wf_less_than)
  subgoal for argType ctx reducer x xa y xb
    using size_unwrapType [of argType] by (auto simp: less_Suc_eq_le dest: sym)
  subgoal by simp
  subgoal for argType ctx reducer x xa y
    using size_getFields [of xa y argType] by auto
  done

declare reduceOverArgType.simps [simp del]
declare reduceOverWrappedType.simps [simp del]
declare reduceOverObjectType.simps [simp del]

definition reduceOverArgDef :: "argDef \<Rightarrow> 't nodeCtx \<Rightarrow> 't reducer \<Rightarrow> 't maybe" where
  "reduceOverArgDef argDef ctx reducer =
     (let nextValue = reducer (Initial (initialNodeValue ctx)) (ArgDefNode argDef) ctx
      in if \<not> isUndefined nextValue then nextValue
         else reduceOverArgType (TypeRef (type argDef)) ctx reducer)"

definition reduceOverArgDefs ::
  "'t reducer \<Rightarrow> (string \<times> argDef) list \<Rightarrow> 't maybe \<Rightarrow> 't maybe" where
  "reduceOverArgDefs reducer argDefs initialNodeValue' =
     (let childEntries =
            filter (\<lambda>(_, v). \<not> isUndefined v)
              (map (\<lambda>(key, argDef).
                      (key, reduceOverArgDef argDef
                              \<lparr>key = Some key, wrapping = [],
                               initialNodeValue = initialNodeValue'\<rparr> reducer))
                 argDefs)
      in reducer (ChildRecord childEntries) (ArgDefsNode argDefs)
           \<lparr>key = None, wrapping = [], initialNodeValue = initialNodeValue'\<rparr>)"

section \<open>The input transformer\<close>

type_synonym inputTransform = "jsValue \<Rightarrow> error + jsValue"

record inputTransformer =
  extensionName :: string
  extractConfig :: "jsValue \<Rightarrow> error + jsValue"
  transform :: "jsValue \<Rightarrow> jsValue \<Rightarrow> error + jsValue"

text \<open>
  \<open>hasExtensions\<close> reads the property \<open>extensions\<close> of whatever node it is given. A
  definition, a named type and an input field have it or not. The root record of
  definitions is an ordinary object keyed by argument names: its property \<open>extensions\<close>
  is the definition of the argument called \<open>extensions\<close>, when there is one (no prototype
  has a property of that name), and \<open>getExtensions\<close> then reads from that definition the
  property named by the extension name. A type instance read that way is rendered by
  \<open>typeObject\<close> as the object of the properties this model has of it.
\<close>

fun typeObject :: "gqlType \<Rightarrow> jsValue"
  and fieldObject :: "inputField \<Rightarrow> jsValue" where
  "typeObject (GraphQLScalarType n e) =
     VObj [(''name'', VStr n),
           (''extensions'', (case e of None \<Rightarrow> VUndefined | Some x \<Rightarrow> extensionsValue x))]"
| "typeObject (GraphQLEnumType n e) =
     VObj [(''name'', VStr n),
           (''extensions'', (case e of None \<Rightarrow> VUndefined | Some x \<Rightarrow> extensionsValue x))]"
| "typeObject (GraphQLInputObjectType n e fs) =
     VObj [(''name'', VStr n),
           (''extensions'', (case e of None \<Rightarrow> VUndefined | Some x \<Rightarrow> extensionsValue x)),
           (''_fields'', VObj (map (\<lambda>(k, f). (k, fieldObject f)) fs))]"
| "typeObject (GraphQLList t) = VObj [(''ofType'', typeObject t)]"
| "typeObject (GraphQLNonNull t) = VObj [(''ofType'', typeObject t)]"
| "fieldObject (GraphQLInputField t e) =
     VObj [(''type'', typeObject t),
           (''extensions'', (case e of None \<Rightarrow> VUndefined | Some x \<Rightarrow> extensionsValue x))]"

definition argDefProperties :: "argDef \<Rightarrow> (string \<times> jsValue) list" where
  "argDefProperties d =
     [(''type'', typeObject (type d)),
      (''description'', (case description d of None \<Rightarrow> VUndefined | Some s \<Rightarrow> VStr s)),
      (''defaultValue'', defaultValue d),
      (''extensions'',
         (case argExtensions d of None \<Rightarrow> VUndefined | Some x \<Rightarrow> extensionsValue x))]"

fun isListType :: "node \<Rightarrow> bool" where
  "isListType (ArgTypeNode (TypeRef (GraphQLList t))) = True"
| "isListType n = False"

fun extensionsProperty :: "node \<Rightarrow> extensions option" where
  "extensionsProperty (ArgDefNode d) = argExtensions d"
| "extensionsProperty (ArgTypeNode (TypeRef t)) = typeExtensions t"
| "extensionsProperty (ArgTypeNode (FieldRef f)) = fieldExtensions f"
| "extensionsProperty (ArgDefsNode defs) =
     (case map_of defs ''extensions'' of
        None \<Rightarrow> None
      | Some d \<Rightarrow> Some (Ordinary (argDefProperties d)))"

definition hasExtensions :: "node \<Rightarrow> bool" where
  "hasExtensions node = (\<not> isListType node \<and> extensionsProperty node \<noteq> None)"

definition getExtensions :: "inputTransformer \<Rightarrow> node \<Rightarrow> jsValue" where
  "getExtensions T node =
     (if \<not> hasExtensions node then VUndefined
      else (case extensionsProperty node of
              None \<Rightarrow> VUndefined
            | Some e \<Rightarrow> readExtensions e (extensionName T)))"

text \<open>Calling a value of type \<open>T\<close>: only a function can be called.\<close>

fun callTransform :: "inputTransform maybe \<Rightarrow> jsValue \<Rightarrow> error + jsValue" where
  "callTransform (Defined f) v = f v"
| "callTransform Null v = Inl TypeError"
| "callTransform Undefined v = Inl TypeError"

definition makeTransform :: "inputTransformer \<Rightarrow> jsValue \<Rightarrow> inputTransform" where
  "makeTransform T config = (\<lambda>input. transform T input config)"

text \<open>\<open>Array.prototype.map\<close> with a callback that may throw: the first throw ends it.\<close>

fun mapThrowing :: "inputTransform \<Rightarrow> jsValue list \<Rightarrow> error + jsValue list" where
  "mapThrowing f [] = Inr []"
| "mapThrowing f (x # xs) =
     (case f x of
        Inl e \<Rightarrow> Inl e
      | Inr y \<Rightarrow> (case mapThrowing f xs of Inl e \<Rightarrow> Inl e | Inr ys \<Rightarrow> Inr (y # ys)))"

text \<open>
  \<open>input.map(transform)\<close>. An array inherits the built-in \<open>map\<close>, and so does
  \<open>Array.prototype\<close>, which is itself an array without elements. No primitive and no other
  built-in object has a \<open>map\<close>, and what an object of data holds under that name cannot be
  called. A built-in function is never called in this model: an input bag made to hold
  one under the name \<open>map\<close>, at a list position, is outside of it.
\<close>

fun arrayMap :: "jsValue \<Rightarrow> inputTransform \<Rightarrow> error + jsValue" where
  "arrayMap (VList xs) f =
     (case mapThrowing f xs of Inl e \<Rightarrow> Inl e | Inr ys \<Rightarrow> Inr (VList ys))"
| "arrayMap (VBuiltin b) f = (if b = Prototype IArray then Inr (VList []) else Inl TypeError)"
| "arrayMap v f = Inl TypeError"

definition makeListTransform :: "inputTransformer \<Rightarrow> jsValue \<Rightarrow> inputTransform" where
  "makeListTransform T config =
     (let transform' = makeTransform T config in (\<lambda>input. arrayMap input transform'))"

text \<open>
  The \<open>reduce\<close> of \<open>composeKeyTransformers\<close>: each step builds a fresh object from the
  carry's own properties and the transformed value under the key. A throw in a step
  leaves the loop.
\<close>

fun reduceKeyTransformers ::
  "(string \<times> inputTransform maybe) list \<Rightarrow> jsValue \<Rightarrow> error + jsValue" where
  "reduceKeyTransformers [] carry = Inr carry"
| "reduceKeyTransformers ((key', transform') # rest) carry =
     (case getProperty carry key' of
        Inl e \<Rightarrow> Inl e
      | Inr v \<Rightarrow>
          (case callTransform transform' v of
             Inl e \<Rightarrow> Inl e
           | Inr r \<Rightarrow>
               reduceKeyTransformers rest (VObj (AList.update key' r (ownEntries carry)))))"

definition composeKeyTransformers ::
  "(string \<times> inputTransform maybe) list \<Rightarrow> inputTransform" where
  "composeKeyTransformers keyTransformers = (\<lambda>args. reduceKeyTransformers keyTransformers args)"

text \<open>\<open>Object.entries(childValues ?? {})\<close>: a function or \<open>null\<close> has no entries.\<close>

fun objectEntries :: "inputTransform childValues \<Rightarrow> (string \<times> inputTransform maybe) list" where
  "objectEntries (ChildRecord r) = r"
| "objectEntries (Initial v) = []"

text \<open>The reducer that \<open>buildResolverMiddleware\<close> hands to the walk.\<close>

definition middlewareReducer :: "inputTransformer \<Rightarrow> inputTransform reducer" where
  "middlewareReducer T childValues currentNode ctx =
     (let childEntries = objectEntries childValues
      in if length childEntries > 0 then Defined (composeKeyTransformers childEntries)
         else (let extensions = getExtensions T currentNode
               in if \<not> truthy extensions then Undefined
                  else if KList \<in> set (wrapping ctx)
                       then Defined (makeListTransform T extensions)
                       else Defined (makeTransform T extensions)))"

definition buildResolverMiddleware ::
  "inputTransformer \<Rightarrow> (string \<times> argDef) list \<Rightarrow> inputTransform maybe" where
  "buildResolverMiddleware T argDefs = reduceOverArgDefs (middlewareReducer T) argDefs Null"

section \<open>The nodes a walk visits\<close>

text \<open>
  The nodes on which a walk calls the reducer, in call order: the walk itself, with every
  call of the reducer written down instead of combined. It says where a walk descends and
  where it stops.
\<close>

function visitsArgType :: "argType \<Rightarrow> 't nodeCtx \<Rightarrow> 't reducer \<Rightarrow> node list"
  and visitsWrappedType :: "gqlType \<Rightarrow> 't nodeCtx \<Rightarrow> 't reducer \<Rightarrow> node list"
  and visitsObjectType :: "gqlType \<Rightarrow> 't nodeCtx \<Rightarrow> 't reducer \<Rightarrow> node list"
where
  "visitsArgType argType ctx reducer =
     (let (namedType, wrapping') = unwrapType argType;
          nextValue = reducer (Initial (initialNodeValue ctx)) (ArgTypeNode argType)
                        (ctx\<lparr>wrapping := wrapping'\<rparr>)
      in ArgTypeNode argType #
         (if \<not> isUndefined nextValue then []
          else visitsWrappedType namedType (ctx\<lparr>wrapping := wrapping'\<rparr>) reducer))"
| "visitsWrappedType argType ctx reducer =
     (let nextValue = reducer (Initial (initialNodeValue ctx)) (ArgTypeNode (TypeRef argType)) ctx
      in ArgTypeNode (TypeRef argType) #
         (if \<not> isUndefined nextValue then []
          else if isInputObjectType argType then visitsObjectType argType ctx reducer
          else []))"
| "visitsObjectType argType ctx reducer =
     concat (map (\<lambda>(key, argType).
                    visitsArgType (FieldRef argType)
                      \<lparr>key = Some key, wrapping = [],
                       initialNodeValue = initialNodeValue ctx\<rparr> reducer)
               (getFields argType))
     @ [ArgTypeNode (TypeRef argType)]"
  by pat_completeness auto
termination
  apply (relation "inv_image (less_than <*lex*> less_than)
           (\<lambda>x. case x of
               Inl (a, c, r) \<Rightarrow> (argTypeSize a, 2)
             | Inr (Inl (t, c, r)) \<Rightarrow> (size t, 1)
             | Inr (Inr (t, c, r)) \<Rightarrow> (size t, 0))")
     apply (intro wf_inv_image wf_lex_prod wf_less_than)
  subgoal for argType ctx reducer x xa y xb
    using size_unwrapType [of argType] by (auto simp: less_Suc_eq_le dest: sym)
  subgoal by simp
  subgoal for argType ctx reducer x xa y
    using size_getFields [of xa y argType] by auto
  done

declare visitsArgType.simps [simp del]
declare visitsWrappedType.simps [simp del]
declare visitsObjectType.simps [simp del]

definition visitsArgDef :: "argDef \<Rightarrow> 't nodeCtx \<Rightarrow> 't reducer \<Rightarrow> node list" where
  "visitsArgDef argDef ctx reducer =
     (let nextValue = reducer (Initial (initialNodeValue ctx)) (ArgDefNode argDef) ctx
      in ArgDefNode argDef #
         (if \<not> isUndefined nextValue then []
          else visitsArgType (TypeRef (type argDef)) ctx reducer))"

text \<open>
  The keys on whose value the loop of \<open>composeKeyTransformers\<close> calls a transformer, in
  call order: the same loop, with the calls written down.
\<close>

fun appliedKeys :: "(string \<times> inputTransform maybe) list \<Rightarrow> jsValue \<Rightarrow> string list" where
  "appliedKeys [] carry = []"
| "appliedKeys ((key', transform') # rest) carry =
     (case getProperty carry key' of
        Inl e \<Rightarrow> []
      | Inr v \<Rightarrow>
          key' # (case callTransform transform' v of
                    Inl e \<Rightarrow> []
                  | Inr r \<Rightarrow> appliedKeys rest (VObj (AList.update key' r (ownEntries carry)))))"

section \<open>Annotated positions\<close>

text \<open>
  What it means for a position of the tree to carry an annotation, stated on the tree
  alone: the value that the position's \<open>extensions\<close> gives when read under the name is
  truthy. A type is annotated when its terminal named type is, or a field below it; a
  field and an argument definition when they are themselves, or their type.
\<close>

definition configAt :: "string \<Rightarrow> extensions option \<Rightarrow> jsValue" where
  "configAt name e = (case e of None \<Rightarrow> VUndefined | Some x \<Rightarrow> readExtensions x name)"

fun typeAnnotated :: "string \<Rightarrow> gqlType \<Rightarrow> bool"
  and fieldAnnotated :: "string \<Rightarrow> inputField \<Rightarrow> bool" where
  "typeAnnotated name (GraphQLScalarType n e) = truthy (configAt name e)"
| "typeAnnotated name (GraphQLEnumType n e) = truthy (configAt name e)"
| "typeAnnotated name (GraphQLInputObjectType n e fs) =
     (truthy (configAt name e) \<or> list_ex (\<lambda>(k, f). fieldAnnotated name f) fs)"
| "typeAnnotated name (GraphQLList t) = typeAnnotated name t"
| "typeAnnotated name (GraphQLNonNull t) = typeAnnotated name t"
| "fieldAnnotated name (GraphQLInputField t e) =
     (truthy (configAt name e) \<or> typeAnnotated name t)"

definition argDefAnnotated :: "string \<Rightarrow> argDef \<Rightarrow> bool" where
  "argDefAnnotated name d =
     (truthy (configAt name (argExtensions d)) \<or> typeAnnotated name (type d))"

fun argTypeAnnotated :: "string \<Rightarrow> argType \<Rightarrow> bool" where
  "argTypeAnnotated name (TypeRef t) = typeAnnotated name t"
| "argTypeAnnotated name (FieldRef f) = fieldAnnotated name f"

definition namedAnnotated :: "string \<Rightarrow> gqlType \<Rightarrow> bool" where
  "namedAnnotated name t =
     (truthy (configAt name (typeExtensions t)) \<or>
      list_ex (\<lambda>(k, f). fieldAnnotated name f) (getFields t))"

text \<open>Whether a type has a list layer anywhere in its chain of wrappers.\<close>

fun hasListWrapper :: "gqlType \<Rightarrow> bool" where
  "hasListWrapper (GraphQLList t) = True"
| "hasListWrapper (GraphQLNonNull t) = hasListWrapper t"
| "hasListWrapper t = False"

fun typeOfArgType :: "argType \<Rightarrow> gqlType" where
  "typeOfArgType (TypeRef t) = t"
| "typeOfArgType (FieldRef f) = fieldType f"

text \<open>
  The entries that the root visit of \<open>buildResolverMiddleware\<close> receives: the results of
  \<open>reduceOverArgDef\<close> for the arguments, those that are \<open>undefined\<close> left out.
\<close>

definition childEntriesOf :: "inputTransformer \<Rightarrow> (string \<times> argDef) list \<Rightarrow> (string \<times> inputTransform maybe) list" where
  "childEntriesOf T argDefs =
     filter (\<lambda>(_, v). \<not> isUndefined v)
       (map (\<lambda>(key, argDef).
               (key, reduceOverArgDef argDef
                       \<lparr>key = Some key, wrapping = [], initialNodeValue = Null\<rparr>
                       (middlewareReducer T)))
          argDefs)"

section \<open>The compiled function on a store\<close>

text \<open>
  The compiled functions once more, now with the objects they allocate: what they return
  is an address, and a call takes the store and returns the store it leaves. This is the
  model for what a call allocates and what it changes.
\<close>

text \<open>
  A value as the running program holds it: a primitive, a built-in object, or the address
  of an object or array in the store. The store is the list of the cells allocated so
  far; a new cell is put at its end, and nothing is ever freed. The built-in objects are
  not cells: nothing in the program writes to them.
\<close>

datatype hvalue =
    HUndefined | HNull | HBool bool | HNum int | HStr string | HBuiltin builtin | HRef nat

datatype cell =
    ObjectCell "(string \<times> hvalue) list"
  | BareCell "(string \<times> hvalue) list"
  | ArrayCell "hvalue list"

type_synonym store = "cell list"

type_synonym storeTransform = "hvalue \<Rightarrow> store \<Rightarrow> error + (hvalue \<times> store)"

text \<open>The reads of the pure model, on the store.\<close>

definition hLookupProp :: "(string \<times> hvalue) list \<Rightarrow> string \<Rightarrow> hvalue" where
  "hLookupProp props name = (case map_of props name of None \<Rightarrow> HUndefined | Some v \<Rightarrow> v)"

fun cellEntries :: "cell \<Rightarrow> (string \<times> hvalue) list" where
  "cellEntries (ObjectCell kvs) = kvs"
| "cellEntries (BareCell kvs) = kvs"
| "cellEntries (ArrayCell vs) = zip (map toDecimal [0..<length vs]) vs"

fun hOwnEntries :: "store \<Rightarrow> hvalue \<Rightarrow> (string \<times> hvalue) list" where
  "hOwnEntries s (HRef a) = (if a < length s then cellEntries (s ! a) else [])"
| "hOwnEntries s (HStr str) = zip (map toDecimal [0..<length str]) (map (\<lambda>c. HStr [c]) str)"
| "hOwnEntries s v = []"

fun hMemberValue :: "builtin list \<Rightarrow> member \<Rightarrow> hvalue" where
  "hMemberValue chain (MNum n) = HNum n"
| "hMemberValue chain (MStr str) = HStr str"
| "hMemberValue chain (MBuiltin b) = HBuiltin b"
| "hMemberValue chain MPrototypeOf = (case chain of [] \<Rightarrow> HNull | p # ps \<Rightarrow> HBuiltin p)"

definition hInherited :: "builtin list \<Rightarrow> string \<Rightarrow> hvalue" where
  "hInherited chain name =
     (case findMember chain name of None \<Rightarrow> HUndefined | Some m \<Rightarrow> hMemberValue chain m)"

fun hGetProperty :: "store \<Rightarrow> hvalue \<Rightarrow> string \<Rightarrow> error + hvalue" where
  "hGetProperty s HUndefined name = Inl TypeError"
| "hGetProperty s HNull name = Inl TypeError"
| "hGetProperty s (HRef a) name =
     Inr (if a < length s
          then (case s ! a of
                  ObjectCell kvs \<Rightarrow>
                    (case map_of kvs name of
                       Some v \<Rightarrow> v
                     | None \<Rightarrow> hInherited [Prototype IObject] name)
                | BareCell kvs \<Rightarrow> hLookupProp kvs name
                | ArrayCell vs \<Rightarrow>
                    if name = ''length'' then HNum (int (length vs))
                    else (case map_of (cellEntries (ArrayCell vs)) name of
                            Some v \<Rightarrow> v
                          | None \<Rightarrow> hInherited [Prototype IArray, Prototype IObject] name))
          else HUndefined)"
| "hGetProperty s (HStr str) name =
     Inr (if name = ''length'' then HNum (int (length str))
          else (case map_of (hOwnEntries s (HStr str)) name of
                  Some v \<Rightarrow> v
                | None \<Rightarrow> hInherited [Prototype IString, Prototype IObject] name))"
| "hGetProperty s (HNum n) name = Inr (hInherited [Prototype INumber, Prototype IObject] name)"
| "hGetProperty s (HBool b) name = Inr (hInherited [Prototype IBoolean, Prototype IObject] name)"
| "hGetProperty s (HBuiltin b) name =
     (if callable b \<and> (name = ''caller'' \<or> name = ''arguments'') then Inl TypeError
      else Inr (case findMember (b # prototypeChain b) name of
                  None \<Rightarrow> HUndefined
                | Some m \<Rightarrow> hMemberValue (prototypeChain b) m))"

text \<open>
  A transformer whose transform works on the store: it is given the input value, the
  configuration and the store, and returns its result with the store it leaves. Nothing
  stops it from changing cells that were there. \<open>base\<close> is the same transformer on values.
\<close>

record storeTransformer =
  base :: inputTransformer
  storeTransform :: "hvalue \<Rightarrow> jsValue \<Rightarrow> store \<Rightarrow> error + (hvalue \<times> store)"

fun hCallTransform :: "storeTransform maybe \<Rightarrow> hvalue \<Rightarrow> store \<Rightarrow> error + (hvalue \<times> store)" where
  "hCallTransform (Defined f) v s = f v s"
| "hCallTransform Null v s = Inl TypeError"
| "hCallTransform Undefined v s = Inl TypeError"

definition hMakeTransform :: "storeTransformer \<Rightarrow> jsValue \<Rightarrow> storeTransform" where
  "hMakeTransform T config = (\<lambda>input s. storeTransform T input config s)"

text \<open>
  \<open>input.map(transform)\<close> on the store: the elements are those of the array cell when the
  call starts (for a callback that does not change this very array they are the ones
  \<open>map\<close> reads), the calls are made in order with the store threaded through, and the
  results go into a new array cell.
\<close>

fun hMapThrowing :: "storeTransform \<Rightarrow> hvalue list \<Rightarrow> store \<Rightarrow> error + (hvalue list \<times> store)" where
  "hMapThrowing f [] s = Inr ([], s)"
| "hMapThrowing f (x # xs) s =
     (case f x s of
        Inl e \<Rightarrow> Inl e
      | Inr (y, s1) \<Rightarrow>
          (case hMapThrowing f xs s1 of
             Inl e \<Rightarrow> Inl e
           | Inr (ys, s2) \<Rightarrow> Inr (y # ys, s2)))"

fun hArrayMap :: "hvalue \<Rightarrow> storeTransform \<Rightarrow> store \<Rightarrow> error + (hvalue \<times> store)" where
  "hArrayMap (HRef a) f s =
     (if a < length s
      then (case s ! a of
              ArrayCell vs \<Rightarrow>
                (case hMapThrowing f vs s of
                   Inl e \<Rightarrow> Inl e
                 | Inr (ys, s1) \<Rightarrow> Inr (HRef (length s1), s1 @ [ArrayCell ys]))
            | ObjectCell kvs \<Rightarrow> Inl TypeError
            | BareCell kvs \<Rightarrow> Inl TypeError)
      else Inl TypeError)"
| "hArrayMap (HBuiltin b) f s =
     (if b = Prototype IArray then Inr (HRef (length s), s @ [ArrayCell []]) else Inl TypeError)"
| "hArrayMap v f s = Inl TypeError"

definition hMakeListTransform :: "storeTransformer \<Rightarrow> jsValue \<Rightarrow> storeTransform" where
  "hMakeListTransform T config =
     (let transform' = hMakeTransform T config in (\<lambda>input s. hArrayMap input transform' s))"

text \<open>
  The \<open>reduce\<close> of \<open>composeKeyTransformers\<close> on the store. In
  \<open>{...carry, [key]: transform(carry[key])}\<close> the spread reads the own properties of the
  carry first, then the value under the key is read and the transformer called; the object
  literal is a new cell. No step writes to a cell that exists.
\<close>

fun hReduceKeyTransformers ::
  "(string \<times> storeTransform maybe) list \<Rightarrow> hvalue \<Rightarrow> store \<Rightarrow> error + (hvalue \<times> store)" where
  "hReduceKeyTransformers [] carry s = Inr (carry, s)"
| "hReduceKeyTransformers ((key', transform') # rest) carry s =
     (let spread = hOwnEntries s carry in
      case hGetProperty s carry key' of
        Inl e \<Rightarrow> Inl e
      | Inr v \<Rightarrow>
          (case hCallTransform transform' v s of
             Inl e \<Rightarrow> Inl e
           | Inr (r, s1) \<Rightarrow>
               hReduceKeyTransformers rest (HRef (length s1))
                 (s1 @ [ObjectCell (AList.update key' r spread)])))"

definition hComposeKeyTransformers ::
  "(string \<times> storeTransform maybe) list \<Rightarrow> storeTransform" where
  "hComposeKeyTransformers keyTransformers =
     (\<lambda>args s. hReduceKeyTransformers keyTransformers args s)"

fun hObjectEntries :: "storeTransform childValues \<Rightarrow> (string \<times> storeTransform maybe) list" where
  "hObjectEntries (ChildRecord r) = r"
| "hObjectEntries (Initial v) = []"

text \<open>The reducer and the compile call are those of the pure model, with the store functions.\<close>

definition hMiddlewareReducer :: "storeTransformer \<Rightarrow> storeTransform reducer" where
  "hMiddlewareReducer T childValues currentNode ctx =
     (let childEntries = hObjectEntries childValues
      in if length childEntries > 0 then Defined (hComposeKeyTransformers childEntries)
         else (let extensions = getExtensions (base T) currentNode
               in if \<not> truthy extensions then Undefined
                  else if KList \<in> set (wrapping ctx)
                       then Defined (hMakeListTransform T extensions)
                       else Defined (hMakeTransform T extensions)))"

definition hBuildResolverMiddleware ::
  "storeTransformer \<Rightarrow> (string \<times> argDef) list \<Rightarrow> storeTransform maybe" where
  "hBuildResolverMiddleware T argDefs = reduceOverArgDefs (hMiddlewareReducer T) argDefs Null"

text \<open>
  The value that a store value stands for: the deep reading of the cells it reaches.
  \<open>absAt s a\<close> reads the cell at \<open>a\<close>, following only addresses below \<open>a\<close>; in a well-formed
  store every cell refers to older cells only, so that this reads everything.
\<close>

fun absPrim :: "hvalue \<Rightarrow> jsValue" where
  "absPrim HUndefined = VUndefined"
| "absPrim HNull = VNull"
| "absPrim (HBool b) = VBool b"
| "absPrim (HNum n) = VNum n"
| "absPrim (HStr str) = VStr str"
| "absPrim (HBuiltin b) = VBuiltin b"
| "absPrim (HRef a) = VUndefined"

function absAt :: "store \<Rightarrow> nat \<Rightarrow> jsValue"
  and absBelow :: "store \<Rightarrow> nat \<Rightarrow> hvalue \<Rightarrow> jsValue" where
  "absAt s a =
     (if a < length s
      then (case s ! a of
              ObjectCell kvs \<Rightarrow> VObj (map (\<lambda>(k, v). (k, absBelow s a v)) kvs)
            | BareCell kvs \<Rightarrow> VBare (map (\<lambda>(k, v). (k, absBelow s a v)) kvs)
            | ArrayCell vs \<Rightarrow> VList (map (\<lambda>v. absBelow s a v) vs))
      else VUndefined)"
| "absBelow s bound v =
     (case v of HRef b \<Rightarrow> (if b < bound then absAt s b else VUndefined) | _ \<Rightarrow> absPrim v)"
  by pat_completeness auto

termination
  by (relation "measure (\<lambda>x. case x of Inl (s, a) \<Rightarrow> 2 * a + 1 | Inr (s, bound, v) \<Rightarrow> 2 * bound)")
     auto

declare absAt.simps [simp del]

declare absBelow.simps [simp del]

definition absValue :: "store \<Rightarrow> hvalue \<Rightarrow> jsValue" where
  "absValue s v = absBelow s (length s) v"

text \<open>
  A store is well formed when every address held in a cell is the address of an older
  cell; a value is valid in a store when it is a primitive or an address in use.
\<close>

fun cellValues :: "cell \<Rightarrow> hvalue list" where
  "cellValues (ObjectCell kvs) = map snd kvs"
| "cellValues (BareCell kvs) = map snd kvs"
| "cellValues (ArrayCell vs) = vs"

fun validValue :: "store \<Rightarrow> hvalue \<Rightarrow> bool" where
  "validValue s (HRef b) = (b < length s)"
| "validValue s v = True"

definition wfStore :: "store \<Rightarrow> bool" where
  "wfStore s = (\<forall>a < length s. \<forall>v \<in> set (cellValues (s ! a)). \<forall>b. v = HRef b \<longrightarrow> b < a)"

text \<open>
  A store function implements a function on values when, on a well-formed store and a
  valid input, it throws what the function on values throws, or returns a valid result
  in a well-formed store that only adds cells to the given one, and the result stands for
  what the function on values returns. A transformer is pure when its store transform
  implements its transform on values, for every configuration.
\<close>

definition implements :: "storeTransform \<Rightarrow> inputTransform \<Rightarrow> bool" where
  "implements h p =
     (\<forall>s v. wfStore s \<and> validValue s v \<longrightarrow>
        (case h v s of
           Inl e \<Rightarrow> p (absValue s v) = Inl e
         | Inr (r, s') \<Rightarrow>
             (\<exists>t. s' = s @ t) \<and> wfStore s' \<and> validValue s' r \<and>
             p (absValue s v) = Inr (absValue s' r)))"

definition pureTransformer :: "storeTransformer \<Rightarrow> bool" where
  "pureTransformer T =
     (\<forall>c. implements (\<lambda>input s. storeTransform T input c s)
                      (\<lambda>input. transform (base T) input c))"

fun relMaybe :: "storeTransform maybe \<Rightarrow> inputTransform maybe \<Rightarrow> bool" where
  "relMaybe Undefined Undefined = True"
| "relMaybe Null Null = True"
| "relMaybe (Defined h) (Defined p) = implements h p"
| "relMaybe hm pm = False"

definition relKey ::
  "string \<times> storeTransform maybe \<Rightarrow> string \<times> inputTransform maybe \<Rightarrow> bool" where
  "relKey hk pk = (fst hk = fst pk \<and> relMaybe (snd hk) (snd pk))"

text \<open>The entries that the root visit receives, on the store.\<close>

definition hChildEntriesOf ::
  "storeTransformer \<Rightarrow> (string \<times> argDef) list \<Rightarrow> (string \<times> storeTransform maybe) list" where
  "hChildEntriesOf T argDefs =
     filter (\<lambda>(_, v). \<not> isUndefined v)
       (map (\<lambda>(key, argDef).
               (key, reduceOverArgDef argDef
                       \<lparr>key = Some key, wrapping = [], initialNodeValue = Null\<rparr>
                       (hMiddlewareReducer T)))
          argDefs)"

section \<open>Example inputs\<close>

text \<open>
  The transformer of the repository's test: its transform replaces the input by the
  \<open>to\<close> of the configuration.
\<close>

definition expectPlugin :: inputTransformer where
  "expectPlugin =
     \<lparr>extensionName = ''expectPlugin'',
      extractConfig = (\<lambda>options.
         case getProperty options ''typeConstructor'' of
           Inl e \<Rightarrow> Inl e
         | Inr tc \<Rightarrow>
             (case getProperty options ''to'' of
                Inl e \<Rightarrow> Inl e
              | Inr to \<Rightarrow> Inr (VObj [(''typeConstructor'', tc), (''to'', to)]))),
      transform = (\<lambda>input config. getProperty config ''to'')\<rparr>"

definition stringType :: gqlType where
  "stringType = GraphQLScalarType ''String'' None"

definition plainArg :: "gqlType \<Rightarrow> argDef" where
  "plainArg t = \<lparr>type = t, description = None, defaultValue = VUndefined, argExtensions = None\<rparr>"

definition annotatedArg :: "string \<Rightarrow> jsValue \<Rightarrow> gqlType \<Rightarrow> argDef" where
  "annotatedArg name c t =
     \<lparr>type = t, description = None, defaultValue = VUndefined, argExtensions = Some (Ordinary [(name, c)])\<rparr>"

text \<open>The list field of the test, \<open>t.nonNull.list.nonNull.expectInput("expectedList", ...)\<close>.\<close>

definition expectedListField :: inputField where
  "expectedListField =
     GraphQLInputField (GraphQLNonNull (GraphQLList (GraphQLNonNull stringType)))
       (Some (Prototypeless [(''expectPlugin'', VObj [(''to'', VStr ''TRANSFORMED LIST'')])]))"

definition fieldCtx :: "string \<Rightarrow> inputTransform nodeCtx" where
  "fieldCtx k = \<lparr>key = Some k, wrapping = [], initialNodeValue = Null\<rparr>"

text \<open>
  A transformer whose extractor rejects every options object, and whose transform throws
  unless the configuration has a truthy \<open>to\<close>.
\<close>

definition strictPlugin :: inputTransformer where
  "strictPlugin =
     \<lparr>extensionName = ''strictPlugin'',
      extractConfig = (\<lambda>options. Inl (Thrown (VStr ''invalid options''))),
      transform = (\<lambda>input config.
         case getProperty config ''to'' of
           Inl e \<Rightarrow> Inl e
         | Inr v \<Rightarrow> (if truthy v then Inr v else Inl (Thrown (VStr ''invalid configuration''))))\<rparr>"

text \<open>A transformer registered under the name \<open>extensions\<close>; its transform returns the configuration.\<close>

definition echoPlugin :: inputTransformer where
  "echoPlugin =
     \<lparr>extensionName = ''extensions'',
      extractConfig = (\<lambda>options. Inr options),
      transform = (\<lambda>input config. Inr config)\<rparr>"


definition identityPlugin :: inputTransformer where
  "identityPlugin =
     \<lparr>extensionName = ''identity'',
      extractConfig = (\<lambda>options. Inr options),
      transform = (\<lambda>input config. Inr input)\<rparr>"

text \<open>
  The spec's list example: a transform that doubles a number, and a tree whose input
  object has a nullable list field annotated for it.
\<close>

definition doublePlugin :: inputTransformer where
  "doublePlugin =
     \<lparr>extensionName = ''double'',
      extractConfig = (\<lambda>options. Inr (VObj [])),
      transform = (\<lambda>input config.
         case input of VNum n \<Rightarrow> Inr (VNum (2 * n)) | _ \<Rightarrow> Inl (Thrown (VStr ''not a number'')))\<rparr>"

definition nullableListDefs :: "(string \<times> argDef) list" where
  "nullableListDefs =
     [(''input'', plainArg (GraphQLNonNull (GraphQLInputObjectType ''Input'' None
        [(''xs'', GraphQLInputField (GraphQLList (GraphQLScalarType ''Int'' None))
                    (Some (Prototypeless [(''double'', VObj [])])))])))]"

text \<open>
  On the store: the doubling transformer, which allocates nothing; a transformer that
  writes a property into the object it is given and returns it; and two stores, each with
  the argument bag in its last cell.
\<close>

definition doubleStorePlugin :: storeTransformer where
  "doubleStorePlugin =
     \<lparr>base = doublePlugin,
      storeTransform = (\<lambda>input config s.
         case input of HNum n \<Rightarrow> Inr (HNum (2 * n), s)
                     | _ \<Rightarrow> Inl (Thrown (VStr ''not a number'')))\<rparr>"

definition touchPlugin :: storeTransformer where
  "touchPlugin =
     \<lparr>base = \<lparr>extensionName = ''touch'', extractConfig = (\<lambda>options. Inr options),
              transform = (\<lambda>input config. Inr input)\<rparr>,
      storeTransform = (\<lambda>input config s.
         case input of
           HRef a \<Rightarrow>
             (if a < length s
              then (case s ! a of
                      ObjectCell kvs \<Rightarrow>
                        Inr (input, s[a := ObjectCell (AList.update ''touched'' (HBool True) kvs)])
                    | BareCell kvs \<Rightarrow>
                        Inr (input, s[a := BareCell (AList.update ''touched'' (HBool True) kvs)])
                    | ArrayCell vs \<Rightarrow> Inr (input, s))
              else Inr (input, s))
         | _ \<Rightarrow> Inr (input, s))\<rparr>"

definition boxStore :: store where
  "boxStore = [ObjectCell [(''keep'', HStr ''k'')], ObjectCell [(''box'', HRef 0)]]"

definition numberStore :: store where
  "numberStore = [ObjectCell [(''n'', HNum 21), (''keep'', HStr ''k'')]]"

text \<open>Two reducers over numbers for a walk whose initial node value is \<open>0\<close>.\<close>

definition sentinelReducer :: "nat reducer" where
  "sentinelReducer childValues currentNode ctx = Defined 0"

definition undefinedReducer :: "nat reducer" where
  "undefinedReducer childValues currentNode ctx = Undefined"

definition sentinelCtx :: "nat nodeCtx" where
  "sentinelCtx = \<lparr>key = Some ''a'', wrapping = [], initialNodeValue = Defined 0\<rparr>"

section \<open>The loop over the key transformers\<close>

lemma lookupProp_update:
  "lookupProp (AList.update k r b) k' = (if k' = k then r else lookupProp b k')"
  by (simp add: lookupProp_def update_conv')

lemma objectGet_update:
  "objectGet (AList.update k r b) k' = (if k' = k then r else objectGet b k')"
  by (simp add: objectGet_def update_conv')

lemma objectGet_own: "map_of b k = Some v \<Longrightarrow> objectGet b k = v"
  by (simp add: objectGet_def)

lemma objectGet_cong: "map_of b k = map_of b' k \<Longrightarrow> objectGet b k = objectGet b' k"
  by (simp add: objectGet_def)

lemma memberValue_defined: "memberValue chain m \<noteq> VUndefined"
  by (cases m; cases chain) simp_all

lemma inherited_undefined:
  "inherited [b] name = VUndefined \<longleftrightarrow> name \<notin> fst ` set (ownMembers b)"
proof (cases "map_of (ownMembers b) name")
  case None
  moreover from None have "name \<notin> fst ` set (ownMembers b)"
    by (simp add: map_of_eq_None_iff)
  ultimately show ?thesis by (simp add: inherited_def)
next
  case (Some m)
  then have "name \<in> fst ` set (ownMembers b)"
    by (auto dest!: map_of_SomeD intro: rev_image_eqI)
  with Some show ?thesis by (simp add: inherited_def memberValue_defined)
qed

text \<open>
  When the loop returns, over keys that are distinct, the result is an object: it holds
  under every key what the key's transformer made of the input's value, and under every
  other key what the input held.
\<close>

lemma reduceKeyTransformers_result:
  assumes "distinct (map fst kts)"
      and "reduceKeyTransformers kts (VObj b) = Inr out"
  shows "\<exists>o'. out = VObj o' \<and>
           (\<forall>(k, tr) \<in> set kts.
               callTransform tr (objectGet b k) = Inr (lookupProp o' k) \<and> k \<in> fst ` set o') \<and>
           (\<forall>k. k \<notin> fst ` set kts \<longrightarrow> map_of o' k = map_of b k)"
  using assms
proof (induction kts arbitrary: b)
  case Nil
  then show ?case by auto
next
  case (Cons p rest)
  obtain k tr where p: "p = (k, tr)" by (cases p)
  from Cons.prems(2) p obtain r where
    r: "callTransform tr (objectGet b k) = Inr r" and
    rest: "reduceKeyTransformers rest (VObj (AList.update k r b)) = Inr out"
    by (auto split: sum.splits)
  from Cons.prems(1) p have d: "distinct (map fst rest)" and nk: "k \<notin> fst ` set rest"
    by auto
  from Cons.IH [OF d rest] obtain o' where
    o: "out = VObj o'" and
    each: "\<forall>(k', tr') \<in> set rest.
             callTransform tr' (objectGet (AList.update k r b) k') = Inr (lookupProp o' k') \<and>
             k' \<in> fst ` set o'" and
    frame: "\<forall>k'. k' \<notin> fst ` set rest \<longrightarrow> map_of o' k' = map_of (AList.update k r b) k'"
    by blast
  from frame nk have ok: "map_of o' k = Some r"
    by (simp add: update_conv')
  then have "lookupProp o' k = r" and "k \<in> fst ` set o'"
    by (auto simp: lookupProp_def dest: map_of_SomeD intro: rev_image_eqI)
  moreover have "\<forall>(k', tr') \<in> set rest.
       callTransform tr' (objectGet b k') = Inr (lookupProp o' k') \<and> k' \<in> fst ` set o'"
  proof (intro ballI, clarify)
    fix k' tr'
    assume m: "(k', tr') \<in> set rest"
    then have "k' \<noteq> k" using nk by force
    moreover from each m have
      "callTransform tr' (objectGet (AList.update k r b) k') = Inr (lookupProp o' k') \<and>
       k' \<in> fst ` set o'" by blast
    ultimately show "callTransform tr' (objectGet b k') = Inr (lookupProp o' k') \<and>
       k' \<in> fst ` set o'"
      by (simp add: objectGet_update)
  qed
  moreover have "\<forall>k'. k' \<notin> fst ` set (p # rest) \<longrightarrow> map_of o' k' = map_of b k'"
    using frame p by (auto simp: update_conv')
  ultimately show ?case
    using o p r by auto
qed

text \<open>The loop returns when every transformer returns on the value under its key.\<close>

lemma reduceKeyTransformers_returns:
  assumes "distinct (map fst kts)"
      and "\<forall>(k, tr) \<in> set kts. \<exists>r. callTransform tr (objectGet b k) = Inr r"
  shows "\<exists>out. reduceKeyTransformers kts (VObj b) = Inr out"
  using assms
proof (induction kts arbitrary: b)
  case Nil
  then show ?case by simp
next
  case (Cons p rest)
  obtain k tr where p: "p = (k, tr)" by (cases p)
  from Cons.prems(2) p obtain r where r: "callTransform tr (objectGet b k) = Inr r"
    by auto
  from Cons.prems(1) p have d: "distinct (map fst rest)" and nk: "k \<notin> fst ` set rest"
    by auto
  have "\<forall>(k', tr') \<in> set rest. \<exists>r'. callTransform tr' (objectGet (AList.update k r b) k') = Inr r'"
  proof (intro ballI, clarify)
    fix k' tr'
    assume m: "(k', tr') \<in> set rest"
    then have "k' \<noteq> k" using nk by force
    moreover from Cons.prems(2) m have "\<exists>r'. callTransform tr' (objectGet b k') = Inr r'"
      by auto
    ultimately show "\<exists>r'. callTransform tr' (objectGet (AList.update k r b) k') = Inr r'"
      by (simp add: objectGet_update)
  qed
  from Cons.IH [OF d this] show ?case using p r by simp
qed

lemma reduceKeyTransformers_append:
  "reduceKeyTransformers (ks1 @ ks2) args =
     (case reduceKeyTransformers ks1 args of
        Inl e \<Rightarrow> Inl e
      | Inr carry \<Rightarrow> reduceKeyTransformers ks2 carry)"
  by (induction ks1 arbitrary: args) (auto split: sum.splits)

lemma appliedKeys_append:
  "appliedKeys (ks1 @ ks2) args =
     (case reduceKeyTransformers ks1 args of
        Inl e \<Rightarrow> appliedKeys ks1 args
      | Inr carry \<Rightarrow> map fst ks1 @ appliedKeys ks2 carry)"
  by (induction ks1 arbitrary: args) (auto split: sum.splits)

lemma mapThrowing_Inr:
  "mapThrowing f xs = Inr ys \<Longrightarrow> list_all2 (\<lambda>x y. f x = Inr y) xs ys"
  by (induction xs arbitrary: ys) (auto split: sum.splits)

lemma mapThrowing_returns:
  "\<forall>x \<in> set xs. \<exists>r. f x = Inr r \<Longrightarrow> \<exists>ys. mapThrowing f xs = Inr ys"
  by (induction xs) (auto split: sum.splits)

lemma mapThrowing_throws:
  "mapThrowing f pre = Inr ys \<Longrightarrow> f x = Inl e \<Longrightarrow> mapThrowing f (pre @ x # post) = Inl e"
  by (induction pre arbitrary: ys) (auto split: sum.splits)

lemma reduceKeyTransformers_throws_at:
  assumes "distinct (map fst (ks1 @ (x, tr) # ks2))"
      and "\<forall>(k, tr') \<in> set ks1. \<exists>r. callTransform tr' (objectGet b k) = Inr r"
      and "callTransform tr (objectGet b x) = Inl e"
  shows "reduceKeyTransformers (ks1 @ (x, tr) # ks2) (VObj b) = Inl e"
proof -
  from assms(1) have d: "distinct (map fst ks1)" and nx: "x \<notin> fst ` set ks1" by auto
  from reduceKeyTransformers_returns [OF d assms(2)] obtain res where
    res: "reduceKeyTransformers ks1 (VObj b) = Inr res" by blast
  from reduceKeyTransformers_result [OF d res] nx obtain o' where
    o: "res = VObj o'" and m: "map_of o' x = map_of b x" by blast
  from m have "objectGet o' x = objectGet b x" by (rule objectGet_cong)
  with res o assms(3) show ?thesis
    by (simp add: reduceKeyTransformers_append)
qed

section \<open>The walk of the middleware reducer\<close>

lemma getExtensions_type [simp]:
  "getExtensions T (ArgTypeNode (TypeRef t)) = configAt (extensionName T) (typeExtensions t)"
  by (cases t) (auto simp: getExtensions_def hasExtensions_def configAt_def split: option.splits)

lemma getExtensions_field [simp]:
  "getExtensions T (ArgTypeNode (FieldRef f)) = configAt (extensionName T) (fieldExtensions f)"
  by (cases f) (auto simp: getExtensions_def hasExtensions_def configAt_def split: option.splits)

lemma getExtensions_argDef [simp]:
  "getExtensions T (ArgDefNode d) = configAt (extensionName T) (argExtensions d)"
  by (auto simp: getExtensions_def hasExtensions_def configAt_def split: option.splits)

lemma middlewareReducer_Initial:
  "middlewareReducer T (Initial v) n ctx =
     (if truthy (getExtensions T n)
      then (if KList \<in> set (wrapping ctx) then Defined (makeListTransform T (getExtensions T n))
            else Defined (makeTransform T (getExtensions T n)))
      else Undefined)"
  by (simp add: middlewareReducer_def Let_def)

lemma middlewareReducer_ChildRecord:
  "middlewareReducer T (ChildRecord r) n ctx =
     (if r \<noteq> [] then Defined (composeKeyTransformers r)
      else middlewareReducer T (Initial Null) n ctx)"
  by (simp add: middlewareReducer_def Let_def)

lemma isUndefined_middlewareReducer_Initial [simp]:
  "isUndefined (middlewareReducer T (Initial v) n ctx) = (\<not> truthy (getExtensions T n))"
  by (simp add: middlewareReducer_Initial)

lemma isUndefined_middlewareReducer_ChildRecord [simp]:
  "isUndefined (middlewareReducer T (ChildRecord r) n ctx) =
     (r = [] \<and> \<not> truthy (getExtensions T n))"
  by (simp add: middlewareReducer_ChildRecord)

lemma typeAnnotated_unwrap:
  "typeAnnotated name t = namedAnnotated name (fst (unwrapGraphQLDef t))"
  by (induction t rule: unwrapGraphQLDef.induct)
     (auto simp: namedAnnotated_def configAt_def split: prod.splits)

lemma typeExtensions_wrapping: "isWrappingType t \<Longrightarrow> typeExtensions t = None"
  by (cases t) auto

lemma namedAnnotated_named: "\<not> isWrappingType t \<Longrightarrow> namedAnnotated name t = typeAnnotated name t"
  by (cases t) (auto simp: namedAnnotated_def)

lemma argTypeAnnotated_unwrap:
  "argTypeAnnotated name a =
     (truthy (case a of TypeRef t \<Rightarrow> configAt name (typeExtensions t)
                      | FieldRef f \<Rightarrow> configAt name (fieldExtensions f)) \<or>
      namedAnnotated name (fst (unwrapType a)))"
proof (cases a)
  case (TypeRef t)
  show ?thesis
  proof (cases "isWrappingType t")
    case True
    then show ?thesis using TypeRef typeAnnotated_unwrap [of name t]
      by (simp add: typeExtensions_wrapping configAt_def)
  next
    case False
    then show ?thesis using TypeRef
      by (auto simp: namedAnnotated_named) (cases t; auto)
  qed
next
  case (FieldRef f)
  then show ?thesis
    by (cases f) (auto simp: typeAnnotated_unwrap namedAnnotated_named)
qed

lemma walk_undefined:
  fixes T :: inputTransformer
  shows "r = middlewareReducer T \<Longrightarrow>
           isUndefined (reduceOverArgType a ctx r) = (\<not> argTypeAnnotated (extensionName T) a)"
    and "r1 = middlewareReducer T \<Longrightarrow>
           isUndefined (reduceOverWrappedType t ctx1 r1) = (\<not> namedAnnotated (extensionName T) t)"
    and "r2 = middlewareReducer T \<Longrightarrow>
           isUndefined (reduceOverObjectType t2 ctx2 r2) = (\<not> namedAnnotated (extensionName T) t2)"
proof (induction a ctx r and t ctx1 r1 and t2 ctx2 r2
       rule: reduceOverArgType_reduceOverWrappedType_reduceOverObjectType.induct)
  case (1 argType ctx reducer)
  obtain n w where u: "unwrapType argType = (n, w)" by (cases "unwrapType argType")
  show ?case
    using 1 u
    apply (subst reduceOverArgType.simps)
    apply (subst argTypeAnnotated_unwrap)
    apply (cases argType)
     apply (auto simp: Let_def)
    done
next
  case (2 argType ctx reducer)
  show ?case
    using 2
    apply (subst reduceOverWrappedType.simps)
    apply (cases argType)
    apply (auto simp: Let_def namedAnnotated_def)
    done
next
  case (3 argType ctx reducer)
  have "filter (\<lambda>(_, v). \<not> isUndefined v)
          (map (\<lambda>(key, argType).
                  (key, reduceOverArgType (FieldRef argType)
                          \<lparr>key = Some key, wrapping = [],
                           initialNodeValue = initialNodeValue ctx\<rparr> reducer))
             (getFields argType)) = [] \<longleftrightarrow>
        \<not> list_ex (\<lambda>(k, f). fieldAnnotated (extensionName T) f) (getFields argType)"
    using 3 by (auto simp: filter_empty_conv list_ex_iff)
  then show ?case
    using 3(2)
    apply (subst reduceOverObjectType.simps)
    apply (auto simp: Let_def namedAnnotated_def)
    done
qed

lemma reduceOverArgDef_undefined:
  "isUndefined (reduceOverArgDef d ctx (middlewareReducer T)) =
     (\<not> argDefAnnotated (extensionName T) d)"
  by (auto simp: reduceOverArgDef_def Let_def argDefAnnotated_def walk_undefined(1))

lemma reduceOverArgDef_own:
  assumes "truthy (configAt (extensionName T) (argExtensions d))"
  shows "reduceOverArgDef d ctx (middlewareReducer T) =
           (if KList \<in> set (wrapping ctx)
            then Defined (makeListTransform T (configAt (extensionName T) (argExtensions d)))
            else Defined (makeTransform T (configAt (extensionName T) (argExtensions d))))"
  using assms by (simp add: reduceOverArgDef_def Let_def middlewareReducer_Initial)

lemma buildResolverMiddleware_children:
  "buildResolverMiddleware T argDefs =
     middlewareReducer T (ChildRecord (childEntriesOf T argDefs)) (ArgDefsNode argDefs)
       \<lparr>key = None, wrapping = [], initialNodeValue = Null\<rparr>"
  by (simp add: buildResolverMiddleware_def reduceOverArgDefs_def childEntriesOf_def Let_def)

lemma childEntriesOf_keys:
  "map fst (childEntriesOf T argDefs) =
     map fst (filter (\<lambda>(k, d). argDefAnnotated (extensionName T) d) argDefs)"
  by (induction argDefs) (auto simp: childEntriesOf_def reduceOverArgDef_undefined)

lemma childEntriesOf_unannotated:
  "\<forall>(k, d) \<in> set argDefs. \<not> argDefAnnotated (extensionName T) d \<Longrightarrow>
     childEntriesOf T argDefs = []"
  by (induction argDefs) (auto simp: childEntriesOf_def reduceOverArgDef_undefined)

lemma childEntriesOf_append:
  "childEntriesOf T (xs @ ys) = childEntriesOf T xs @ childEntriesOf T ys"
  by (simp add: childEntriesOf_def)

lemma KList_unwrapGraphQLDef: "KList \<in> set (snd (unwrapGraphQLDef t)) = hasListWrapper t"
  by (induction t rule: unwrapGraphQLDef.induct) (auto split: prod.splits)

lemma unwrapType_eq: "unwrapType a = unwrapGraphQLDef (typeOfArgType a)"
proof -
  have t: "\<And>t. unwrapType (TypeRef t) = unwrapGraphQLDef t"
    subgoal for t by (cases t) auto
    done
  show ?thesis by (cases a) (auto simp: t simp del: unwrapType.simps(2))
qed

lemma KList_unwrapType: "KList \<in> set (snd (unwrapType a)) = hasListWrapper (typeOfArgType a)"
  by (simp add: unwrapType_eq KList_unwrapGraphQLDef)

lemma getExtensions_extractConfig:
  "getExtensions (T\<lparr>extractConfig := e\<rparr>) n = getExtensions T n"
  by (simp add: getExtensions_def split: option.splits)

lemma makeTransform_extractConfig:
  "makeTransform (T\<lparr>extractConfig := e\<rparr>) c = makeTransform T c"
  by (simp add: makeTransform_def)

lemma middlewareReducer_extractConfig:
  "middlewareReducer (T\<lparr>extractConfig := e\<rparr>) = middlewareReducer T"
  by (simp add: fun_eq_iff middlewareReducer_def getExtensions_extractConfig
      makeTransform_extractConfig makeListTransform_def Let_def)

section \<open>The store model against the model on values\<close>

lemma absBelow_prim [simp]:
  "absBelow s n HUndefined = VUndefined" "absBelow s n HNull = VNull"
  "absBelow s n (HBool b) = VBool b" "absBelow s n (HNum i) = VNum i"
  "absBelow s n (HStr str) = VStr str" "absBelow s n (HBuiltin bi) = VBuiltin bi"
  by (simp_all add: absBelow.simps)

lemma absAt_append: "a < length s \<Longrightarrow> absAt (s @ t) a = absAt s a"
proof (induction a rule: less_induct)
  case (less a)
  have below: "absBelow (s @ t) a v = absBelow s a v" for v
    using less by (cases v) (auto simp: absBelow.simps)
  show ?case
    using less.prems
    by (simp add: absAt.simps [of "s @ t" a] absAt.simps [of s a] nth_append below
        split: cell.splits)
qed

lemma absValue_append: "validValue s v \<Longrightarrow> absValue (s @ t) v = absValue s v"
  by (cases v) (auto simp: absValue_def absBelow.simps absAt_append)

lemma absValue_prim [simp]:
  "absValue s HUndefined = VUndefined" "absValue s HNull = VNull"
  "absValue s (HBool b) = VBool b" "absValue s (HNum i) = VNum i"
  "absValue s (HStr str) = VStr str" "absValue s (HBuiltin bi) = VBuiltin bi"
  by (simp_all add: absValue_def)

lemma wfStore_valid:
  "wfStore s \<Longrightarrow> a < length s \<Longrightarrow> v \<in> set (cellValues (s ! a)) \<Longrightarrow> validValue s v"
  by (cases v) (auto simp: wfStore_def dest: less_trans)

lemma absBelow_cell:
  "wfStore s \<Longrightarrow> a < length s \<Longrightarrow> v \<in> set (cellValues (s ! a)) \<Longrightarrow>
     absBelow s a v = absValue s v"
  by (cases v) (auto simp: wfStore_def absValue_def absBelow.simps dest: less_trans)

lemma absValue_HRef:
  assumes "wfStore s" and "a < length s"
  shows "absValue s (HRef a) =
           (case s ! a of
              ObjectCell kvs \<Rightarrow> VObj (map (\<lambda>(k, v). (k, absValue s v)) kvs)
            | BareCell kvs \<Rightarrow> VBare (map (\<lambda>(k, v). (k, absValue s v)) kvs)
            | ArrayCell vs \<Rightarrow> VList (map (absValue s) vs))"
proof -
  have "absValue s (HRef a) = absAt s a"
    using assms(2) by (simp add: absValue_def absBelow.simps)
  also have "\<dots> = (case s ! a of
              ObjectCell kvs \<Rightarrow> VObj (map (\<lambda>(k, v). (k, absValue s v)) kvs)
            | BareCell kvs \<Rightarrow> VBare (map (\<lambda>(k, v). (k, absValue s v)) kvs)
            | ArrayCell vs \<Rightarrow> VList (map (absValue s) vs))"
  proof (cases "s ! a")
    case (ObjectCell kvs)
    then have "\<And>k v. (k, v) \<in> set kvs \<Longrightarrow> absBelow s a v = absValue s v"
      using absBelow_cell [OF assms] by force
    then show ?thesis
      using assms(2) ObjectCell by (auto simp: absAt.simps [of s a])
  next
    case (BareCell kvs)
    then have "\<And>k v. (k, v) \<in> set kvs \<Longrightarrow> absBelow s a v = absValue s v"
      using absBelow_cell [OF assms] by force
    then show ?thesis
      using assms(2) BareCell by (auto simp: absAt.simps [of s a])
  next
    case (ArrayCell vs)
    then have "\<And>v. v \<in> set vs \<Longrightarrow> absBelow s a v = absValue s v"
      using absBelow_cell [OF assms] by force
    then show ?thesis
      using assms(2) ArrayCell by (auto simp: absAt.simps [of s a])
  qed
  finally show ?thesis .
qed

lemma wfStore_append_cell:
  assumes "wfStore s" and "\<forall>v \<in> set (cellValues c). validValue s v"
  shows "wfStore (s @ [c])"
  unfolding wfStore_def
proof (intro allI impI ballI)
  fix a v b
  assume a: "a < length (s @ [c])" and v: "v \<in> set (cellValues ((s @ [c]) ! a))" and b: "v = HRef b"
  show "b < a"
  proof (cases "a < length s")
    case True
    with assms(1) v b show ?thesis by (auto simp: wfStore_def nth_append)
  next
    case False
    with a have "a = length s" by simp
    with assms(2) v b show ?thesis by (auto simp: nth_append)
  qed
qed

lemma lookupProp_map:
  "lookupProp (map (\<lambda>(k, x). (k, absValue s x)) props) name = absValue s (hLookupProp props name)"
  by (induction props) (auto simp: lookupProp_def hLookupProp_def)

lemma map_zip_snd: "map (\<lambda>(k, x). (k, f x)) (zip ks xs) = zip ks (map f xs)"
  by (induction ks xs rule: list_induct2') auto

lemma map_of_zip_map: "map_of (zip ks (map f xs)) name = map_option f (map_of (zip ks xs) name)"
  by (simp add: map_zip_snd [symmetric] map_of_map)

lemma absValue_hMemberValue: "absValue s (hMemberValue chain m) = memberValue chain m"
  by (cases m; cases chain) simp_all

lemma absValue_hInherited: "absValue s (hInherited chain name) = inherited chain name"
  by (simp add: hInherited_def inherited_def absValue_hMemberValue split: option.splits)

lemma validValue_hMemberValue: "validValue s (hMemberValue chain m)"
  by (cases m; cases chain) simp_all

lemma validValue_hInherited: "validValue s (hInherited chain name)"
  by (simp add: hInherited_def validValue_hMemberValue split: option.splits)

lemma cellEntries_abs:
  "wfStore s \<Longrightarrow> a < length s \<Longrightarrow>
     ownEntries (absValue s (HRef a)) = map (\<lambda>(k, x). (k, absValue s x)) (cellEntries (s ! a))"
  by (cases "s ! a") (simp_all add: absValue_HRef map_zip_snd)

lemma ownEntries_absValue:
  assumes "wfStore s" and "validValue s v"
  shows "ownEntries (absValue s v) = map (\<lambda>(k, x). (k, absValue s x)) (hOwnEntries s v)"
proof (cases v)
  case (HRef a)
  with assms show ?thesis by (simp add: cellEntries_abs)
next
  case (HStr str)
  then show ?thesis by (simp add: map_zip_snd comp_def)
qed simp_all

lemma cellEntries_values: "snd ` set (cellEntries c) \<subseteq> set (cellValues c)"
  by (cases c) (auto dest: set_zip_rightD)

lemma hOwnEntries_valid:
  assumes "wfStore s" and "validValue s v" and "(k, x) \<in> set (hOwnEntries s v)"
  shows "validValue s x"
proof (cases v)
  case (HRef a)
  with assms(2,3) have a: "a < length s" and "(k, x) \<in> set (cellEntries (s ! a))"
    by (auto split: if_splits)
  then have "x \<in> set (cellValues (s ! a))"
    using cellEntries_values [of "s ! a"] by force
  with assms(1) a show ?thesis by (rule wfStore_valid)
next
  case (HStr str)
  with assms(3) show ?thesis by (auto dest!: set_zip_rightD)
qed (use assms(3) in simp_all)

lemma hLookupProp_valid:
  "\<forall>(k, x) \<in> set props. validValue s x \<Longrightarrow> validValue s (hLookupProp props name)"
  by (auto simp: hLookupProp_def split: option.splits dest!: map_of_SomeD)

lemma getProperty_absValue:
  assumes "wfStore s" and "validValue s v"
  shows "getProperty (absValue s v) name =
           (case hGetProperty s v name of Inl e \<Rightarrow> Inl e | Inr x \<Rightarrow> Inr (absValue s x))"
proof (cases v)
  case (HRef a)
  with assms(2) have a: "a < length s" by simp
  show ?thesis
  proof (cases "s ! a")
    case (ObjectCell kvs)
    with a assms(1) HRef show ?thesis
      by (simp add: absValue_HRef objectGet_def map_of_map absValue_hInherited
          split: option.splits)
  next
    case (BareCell kvs)
    with a assms(1) HRef show ?thesis
      by (simp add: absValue_HRef lookupProp_map)
  next
    case (ArrayCell vs)
    define Z where "Z = zip (map toDecimal [0..<length vs]) vs"
    have m: "map_of (ownEntries (VList (map (absValue s) vs))) name =
               map_option (absValue s) (map_of Z name)"
      unfolding Z_def by (simp only: ownEntries.simps length_map map_of_zip_map)
    have L: "getProperty (absValue s v) name =
               Inr (if name = ''length'' then VNum (int (length vs))
                    else (case map_of (ownEntries (VList (map (absValue s) vs))) name of
                            Some x \<Rightarrow> x
                          | None \<Rightarrow> inherited [Prototype IArray, Prototype IObject] name))"
      using a assms(1) HRef ArrayCell by (simp add: absValue_HRef del: ownEntries.simps)
    have R: "hGetProperty s v name =
               Inr (if name = ''length'' then HNum (int (length vs))
                    else (case map_of Z name of
                            Some x \<Rightarrow> x
                          | None \<Rightarrow> hInherited [Prototype IArray, Prototype IObject] name))"
      using a HRef ArrayCell by (simp add: Z_def)
    show ?thesis
      unfolding L R m by (cases "map_of Z name") (simp_all add: absValue_hInherited)
  qed
next
  case (HStr str)
  define Z where "Z = zip (map toDecimal [0..<length str]) (map (\<lambda>c. HStr [c]) str)"
  have "ownEntries (VStr str) =
          zip (map toDecimal [0..<length str]) (map (absValue s) (map (\<lambda>c. HStr [c]) str))"
    by (simp add: comp_def)
  then have m: "map_of (ownEntries (VStr str)) name = map_option (absValue s) (map_of Z name)"
    unfolding Z_def by (simp only: map_of_zip_map)
  have L: "getProperty (absValue s v) name =
             Inr (if name = ''length'' then VNum (int (length str))
                  else (case map_of (ownEntries (VStr str)) name of
                          Some x \<Rightarrow> x
                        | None \<Rightarrow> inherited [Prototype IString, Prototype IObject] name))"
    using HStr by (simp del: ownEntries.simps)
  have R: "hGetProperty s v name =
             Inr (if name = ''length'' then HNum (int (length str))
                  else (case map_of Z name of
                          Some x \<Rightarrow> x
                        | None \<Rightarrow> hInherited [Prototype IString, Prototype IObject] name))"
    using HStr by (simp add: Z_def)
  show ?thesis
    unfolding L R m by (cases "map_of Z name") (simp_all add: absValue_hInherited)
next
  case (HBuiltin b)
  then show ?thesis
    by (simp add: absValue_hMemberValue split: option.splits)
qed (simp_all add: absValue_hInherited)

lemma hGetProperty_valid:
  assumes "wfStore s" and "validValue s v" and "hGetProperty s v name = Inr x"
  shows "validValue s x"
proof -
  have own: "\<forall>(k, y) \<in> set (hOwnEntries s v). validValue s y"
    using hOwnEntries_valid [OF assms(1,2)] by blast
  show ?thesis
  proof (cases v)
    case (HRef a)
    with assms(2) have a: "a < length s" by simp
    from own HRef a have c: "\<forall>(k, y) \<in> set (cellEntries (s ! a)). validValue s y" by simp
    show ?thesis
    proof (cases "s ! a")
      case (ObjectCell kvs)
      with c assms(3) HRef a show ?thesis
        by (auto simp: validValue_hInherited split: option.splits dest!: map_of_SomeD)
    next
      case (BareCell kvs)
      with c assms(3) HRef a show ?thesis by (auto intro: hLookupProp_valid)
    next
      case (ArrayCell vs)
      with c assms(3) HRef a show ?thesis
        by (auto simp: validValue_hInherited split: if_splits option.splits dest!: map_of_SomeD)
    qed
  next
    case (HStr str)
    with own assms(3) show ?thesis
      by (auto simp: validValue_hInherited split: if_splits option.splits dest!: map_of_SomeD)
  next
    case (HBuiltin b)
    with assms(3) show ?thesis
      by (auto simp: validValue_hMemberValue split: if_splits option.splits)
  qed (use assms(3) in \<open>auto simp: validValue_hInherited\<close>)
qed

lemma implementsD:
  assumes "implements h p" and "wfStore s" and "validValue s v"
  shows "h v s = Inl e \<Longrightarrow> p (absValue s v) = Inl e"
    and "h v s = Inr (r, s') \<Longrightarrow>
           (\<exists>t. s' = s @ t) \<and> wfStore s' \<and> validValue s' r \<and>
           p (absValue s v) = Inr (absValue s' r)"
proof -
  from assms have c: "case h v s of
           Inl e \<Rightarrow> p (absValue s v) = Inl e
         | Inr (r, s') \<Rightarrow>
             (\<exists>t. s' = s @ t) \<and> wfStore s' \<and> validValue s' r \<and>
             p (absValue s v) = Inr (absValue s' r)"
    unfolding implements_def by blast
  show "h v s = Inl e \<Longrightarrow> p (absValue s v) = Inl e"
    using c by simp
  show "h v s = Inr (r, s') \<Longrightarrow>
           (\<exists>t. s' = s @ t) \<and> wfStore s' \<and> validValue s' r \<and>
           p (absValue s v) = Inr (absValue s' r)"
    using c by simp
qed

lemma implementsI:
  assumes "\<And>s v e. wfStore s \<Longrightarrow> validValue s v \<Longrightarrow> h v s = Inl e \<Longrightarrow> p (absValue s v) = Inl e"
      and "\<And>s v r s'. wfStore s \<Longrightarrow> validValue s v \<Longrightarrow> h v s = Inr (r, s') \<Longrightarrow>
             (\<exists>t. s' = s @ t) \<and> wfStore s' \<and> validValue s' r \<and>
             p (absValue s v) = Inr (absValue s' r)"
  shows "implements h p"
  unfolding implements_def
proof (intro allI impI)
  fix s v
  assume a: "wfStore s \<and> validValue s v"
  show "case h v s of
           Inl e \<Rightarrow> p (absValue s v) = Inl e
         | Inr (r, s') \<Rightarrow>
             (\<exists>t. s' = s @ t) \<and> wfStore s' \<and> validValue s' r \<and>
             p (absValue s v) = Inr (absValue s' r)"
  proof (cases "h v s")
    case (Inl e)
    with assms(1) a show ?thesis by simp
  next
    case (Inr rs)
    obtain r s' where "rs = (r, s')" by (cases rs)
    with Inr assms(2) [of s v r s'] a show ?thesis by simp
  qed
qed

lemma validValue_append: "validValue s v \<Longrightarrow> validValue (s @ t) v"
  by (cases v) auto

lemma hCallTransform_implements:
  assumes "relMaybe hm pm"
  shows "implements (hCallTransform hm) (callTransform pm)"
proof (cases hm; cases pm)
  fix h p
  assume "hm = Defined h" and "pm = Defined p"
  with assms have "implements h p" and "hCallTransform hm = h" and "callTransform pm = p"
    by (auto simp: fun_eq_iff)
  then show ?thesis by simp
qed (use assms in \<open>auto intro!: implementsI\<close>)

lemma hMapThrowing_implements:
  assumes "implements h p"
  shows "wfStore s \<Longrightarrow> \<forall>v \<in> set vs. validValue s v \<Longrightarrow>
     (case hMapThrowing h vs s of
        Inl e \<Rightarrow> mapThrowing p (map (absValue s) vs) = Inl e
      | Inr (ys, s') \<Rightarrow>
          (\<exists>t. s' = s @ t) \<and> wfStore s' \<and> (\<forall>y \<in> set ys. validValue s' y) \<and>
          mapThrowing p (map (absValue s) vs) = Inr (map (absValue s') ys))"
proof (induction vs arbitrary: s)
  case Nil
  then show ?case by simp
next
  case (Cons x xs)
  have vx: "validValue s x" using Cons.prems(2) by simp
  show ?case
  proof (cases "h x s")
    case (Inl e)
    with implementsD(1) [OF assms Cons.prems(1) vx] show ?thesis by simp
  next
    case (Inr ys1)
    obtain y s1 where ys1: "ys1 = (y, s1)" by (cases ys1)
    from implementsD(2) [OF assms Cons.prems(1) vx Inr [unfolded ys1]] obtain t where
      s1: "s1 = s @ t" and wf1: "wfStore s1" and vy: "validValue s1 y" and
      py: "p (absValue s x) = Inr (absValue s1 y)" by blast
    have vxs: "\<forall>v \<in> set xs. validValue s1 v"
      using Cons.prems(2) s1 by (auto intro: validValue_append)
    have same: "map (absValue s1) xs = map (absValue s) xs"
      using Cons.prems(2) s1 by (auto simp: absValue_append)
    show ?thesis
    proof (cases "hMapThrowing h xs s1")
      case (Inl e)
      with Cons.IH [OF wf1 vxs] same Inr ys1 py show ?thesis by simp
    next
      case (Inr zs2)
      obtain zs s2 where zs2: "zs2 = (zs, s2)" by (cases zs2)
      from Cons.IH [OF wf1 vxs] Inr zs2 same obtain t2 where
        s2: "s2 = s1 @ t2" and wf2: "wfStore s2" and vzs: "\<forall>z \<in> set zs. validValue s2 z" and
        pz: "mapThrowing p (map (absValue s) xs) = Inr (map (absValue s2) zs)" by auto
      have "absValue s2 y = absValue s1 y" using vy s2 by (simp add: absValue_append)
      moreover have "validValue s2 y" using vy s2 by (simp add: validValue_append)
      ultimately show ?thesis
        using \<open>h x s = Inr ys1\<close> ys1 Inr zs2 s1 s2 wf2 vzs pz py by simp
    qed
  qed
qed

lemma absValue_fresh_cell:
  assumes "wfStore s" and "\<forall>v \<in> set (cellValues c). validValue s v"
  shows "absValue (s @ [c]) (HRef (length s)) =
           (case c of
              ObjectCell kvs \<Rightarrow> VObj (map (\<lambda>(k, v). (k, absValue s v)) kvs)
            | BareCell kvs \<Rightarrow> VBare (map (\<lambda>(k, v). (k, absValue s v)) kvs)
            | ArrayCell vs \<Rightarrow> VList (map (absValue s) vs))"
proof -
  have wf: "wfStore (s @ [c])" using assms by (rule wfStore_append_cell)
  have same: "\<And>v. v \<in> set (cellValues c) \<Longrightarrow> absValue (s @ [c]) v = absValue s v"
    using assms(2) by (simp add: absValue_append)
  show ?thesis
  proof (cases c)
    case (ObjectCell kvs)
    then have "\<And>k v. (k, v) \<in> set kvs \<Longrightarrow> absValue (s @ [c]) v = absValue s v"
      using same by force
    then show ?thesis
      using absValue_HRef [OF wf, of "length s"] ObjectCell by auto
  next
    case (BareCell kvs)
    then have "\<And>k v. (k, v) \<in> set kvs \<Longrightarrow> absValue (s @ [c]) v = absValue s v"
      using same by force
    then show ?thesis
      using absValue_HRef [OF wf, of "length s"] BareCell by auto
  next
    case (ArrayCell vs)
    then show ?thesis
      using absValue_HRef [OF wf, of "length s"] same by auto
  qed
qed

lemma hArrayMap_implements:
  assumes "implements h p"
  shows "implements (\<lambda>input s. hArrayMap input h s) (\<lambda>input. arrayMap input p)"
proof (rule implementsI)
  fix s v e
  assume wf: "wfStore s" and v: "validValue s v" and r: "hArrayMap v h s = Inl e"
  show "arrayMap (absValue s v) p = Inl e"
  proof (cases v)
    case (HRef a)
    with v have a: "a < length s" by simp
    show ?thesis
    proof (cases "s ! a")
      case (ObjectCell kvs)
      with r HRef a wf show ?thesis by (simp add: absValue_HRef)
    next
      case (BareCell kvs)
      with r HRef a wf show ?thesis by (simp add: absValue_HRef)
    next
      case (ArrayCell vs)
      have vs: "\<forall>x \<in> set vs. validValue s x"
        using wfStore_valid [OF wf a] ArrayCell by simp
      from r HRef a ArrayCell have "hMapThrowing h vs s = Inl e"
        by (auto split: sum.splits)
      with hMapThrowing_implements [OF assms wf vs] have
        "mapThrowing p (map (absValue s) vs) = Inl e" by simp
      with HRef a ArrayCell wf show ?thesis by (simp add: absValue_HRef)
    qed
  qed (use r in \<open>auto split: if_splits\<close>)
next
  fix s v r s'
  assume wf: "wfStore s" and v: "validValue s v" and res: "hArrayMap v h s = Inr (r, s')"
  show "(\<exists>t. s' = s @ t) \<and> wfStore s' \<and> validValue s' r \<and>
        arrayMap (absValue s v) p = Inr (absValue s' r)"
  proof (cases v)
    case (HRef a)
    with v have a: "a < length s" by simp
    show ?thesis
    proof (cases "s ! a")
      case (ObjectCell kvs)
      with res HRef a show ?thesis by simp
    next
      case (BareCell kvs)
      with res HRef a show ?thesis by simp
    next
      case (ArrayCell vs)
      have vs: "\<forall>x \<in> set vs. validValue s x"
        using wfStore_valid [OF wf a] ArrayCell by simp
      from res HRef a ArrayCell obtain ys s1 where
        m: "hMapThrowing h vs s = Inr (ys, s1)" and r: "r = HRef (length s1)" and
        s': "s' = s1 @ [ArrayCell ys]"
        by (auto split: sum.splits)
      from hMapThrowing_implements [OF assms wf vs] m obtain t where
        s1: "s1 = s @ t" and wf1: "wfStore s1" and vys: "\<forall>y \<in> set ys. validValue s1 y" and
        pm: "mapThrowing p (map (absValue s) vs) = Inr (map (absValue s1) ys)" by auto
      have "wfStore s'" using wf1 vys s' by (auto intro: wfStore_append_cell)
      moreover have "absValue s' r = VList (map (absValue s1) ys)"
        using absValue_fresh_cell [OF wf1, of "ArrayCell ys"] vys r s' by simp
      ultimately show ?thesis
        using HRef a ArrayCell wf pm s1 s' r by (simp add: absValue_HRef)
    qed
  next
    case (HBuiltin b)
    with res have b: "b = Prototype IArray" and r: "r = HRef (length s)"
      and s': "s' = s @ [ArrayCell []]"
      by (auto split: if_splits)
    have "wfStore s'" using wf s' by (auto intro: wfStore_append_cell)
    moreover have "absValue s' r = VList []"
      using absValue_fresh_cell [OF wf, of "ArrayCell []"] r s' by simp
    ultimately show ?thesis
      using HBuiltin b r s' by simp
  qed (use res in auto)
qed

lemma update_map_snd:
  "AList.update k (f r) (map (\<lambda>(k, x). (k, f x)) es) = map (\<lambda>(k, x). (k, f x)) (AList.update k r es)"
  by (induction es) auto

lemma set_update_values:
  "(k', x) \<in> set (AList.update k r es) \<Longrightarrow> x = r \<or> (k', x) \<in> set es"
  by (induction es) (auto split: if_splits)

lemma fresh_object_abs:
  assumes wf: "wfStore s" and v: "validValue s v" and s1: "s1 = s @ t"
      and wf1: "wfStore s1" and vr: "validValue s1 r"
  shows "wfStore (s1 @ [ObjectCell (AList.update k r (hOwnEntries s v))])"
    and "absValue (s1 @ [ObjectCell (AList.update k r (hOwnEntries s v))]) (HRef (length s1)) =
           VObj (AList.update k (absValue s1 r) (ownEntries (absValue s v)))"
proof -
  let ?es = "hOwnEntries s v"
  let ?c = "ObjectCell (AList.update k r ?es)"
  have vals: "\<forall>y \<in> set (cellValues ?c). validValue s1 y"
  proof
    fix y assume "y \<in> set (cellValues ?c)"
    then obtain k2 where "(k2, y) \<in> set (AList.update k r ?es)" by auto
    then have "y = r \<or> (k2, y) \<in> set ?es" by (rule set_update_values)
    then show "validValue s1 y"
      using vr hOwnEntries_valid [OF wf v] s1 by (auto intro: validValue_append)
  qed
  show "wfStore (s1 @ [?c])" using wf1 vals by (rule wfStore_append_cell)
  have old: "\<And>k2 y. (k2, y) \<in> set ?es \<Longrightarrow> absValue s1 y = absValue s y"
    using hOwnEntries_valid [OF wf v] s1 by (simp add: absValue_append)
  have m: "map (\<lambda>(k, x). (k, absValue s1 x)) ?es = map (\<lambda>(k, x). (k, absValue s x)) ?es"
    using old by auto
  have "absValue (s1 @ [?c]) (HRef (length s1)) =
          VObj (map (\<lambda>(k, x). (k, absValue s1 x)) (AList.update k r ?es))"
    using absValue_fresh_cell [OF wf1 vals] by simp
  also have "\<dots> = VObj (AList.update k (absValue s1 r) (map (\<lambda>(k, x). (k, absValue s1 x)) ?es))"
    by (simp add: update_map_snd)
  also have "\<dots> = VObj (AList.update k (absValue s1 r) (ownEntries (absValue s v)))"
    by (simp only: m ownEntries_absValue [OF wf v])
  finally show "absValue (s1 @ [?c]) (HRef (length s1)) =
      VObj (AList.update k (absValue s1 r) (ownEntries (absValue s v)))" .
qed

lemma hReduceKeyTransformers_implements:
  assumes "list_all2 relKey hkts pkts"
  shows "implements (hReduceKeyTransformers hkts) (reduceKeyTransformers pkts)"
  using assms
proof (induction hkts pkts rule: list_all2_induct)
  case Nil
  show ?case by (rule implementsI) auto
next
  case (Cons hk hkts pk pkts)
  obtain k h where hk: "hk = (k, h)" by (cases hk)
  obtain k' p where pk: "pk = (k', p)" by (cases pk)
  from Cons.hyps(1) hk pk have k: "k' = k" and rel: "relMaybe h p" by (auto simp: relKey_def)
  note call = hCallTransform_implements [OF rel]
  show ?case
  proof (rule implementsI)
    fix s v e
    assume wf: "wfStore s" and v: "validValue s v"
      and res: "hReduceKeyTransformers (hk # hkts) v s = Inl e"
    show "reduceKeyTransformers (pk # pkts) (absValue s v) = Inl e"
    proof (cases "hGetProperty s v k")
      case (Inl e1)
      with res hk have "e1 = e" by (simp add: Let_def)
      with Inl getProperty_absValue [OF wf v, of k] pk k show ?thesis by simp
    next
      case (Inr x)
      have vx: "validValue s x" using hGetProperty_valid [OF wf v Inr] .
      have gp: "getProperty (absValue s v) k = Inr (absValue s x)"
        using getProperty_absValue [OF wf v, of k] Inr by simp
      show ?thesis
      proof (cases "hCallTransform h x s")
        case (Inl e1)
        with res hk Inr have "e1 = e" by (simp add: Let_def)
        with implementsD(1) [OF call wf vx] Inl gp pk k show ?thesis by simp
      next
        case (Inr rs1)
        obtain r s1 where rs1: "rs1 = (r, s1)" by (cases rs1)
        from implementsD(2) [OF call wf vx Inr [unfolded rs1]] obtain t where
          s1: "s1 = s @ t" and wf1: "wfStore s1" and vr: "validValue s1 r" and
          pr: "callTransform p (absValue s x) = Inr (absValue s1 r)" by blast
        let ?c = "ObjectCell (AList.update k r (hOwnEntries s v))"
        note wf2 = fresh_object_abs(1) [OF wf v s1 wf1 vr, of k]
        note carry = fresh_object_abs(2) [OF wf v s1 wf1 vr, of k]
        have v2: "validValue (s1 @ [?c]) (HRef (length s1))" by simp
        from res hk \<open>hGetProperty s v k = Inr x\<close> Inr rs1 have
          "hReduceKeyTransformers hkts (HRef (length s1)) (s1 @ [?c]) = Inl e"
          by (simp add: Let_def)
        from implementsD(1) [OF Cons.IH wf2 v2 this] carry gp pr pk k show ?thesis
          by simp
      qed
    qed
  next
    fix s v r' s'
    assume wf: "wfStore s" and v: "validValue s v"
      and res: "hReduceKeyTransformers (hk # hkts) v s = Inr (r', s')"
    show "(\<exists>t. s' = s @ t) \<and> wfStore s' \<and> validValue s' r' \<and>
          reduceKeyTransformers (pk # pkts) (absValue s v) = Inr (absValue s' r')"
    proof (cases "hGetProperty s v k")
      case (Inl e1)
      with res hk show ?thesis by (simp add: Let_def)
    next
      case (Inr x)
      have vx: "validValue s x" using hGetProperty_valid [OF wf v Inr] .
      have gp: "getProperty (absValue s v) k = Inr (absValue s x)"
        using getProperty_absValue [OF wf v, of k] Inr by simp
      show ?thesis
      proof (cases "hCallTransform h x s")
        case (Inl e1)
        with res hk Inr show ?thesis by (simp add: Let_def)
      next
        case (Inr rs1)
        obtain r s1 where rs1: "rs1 = (r, s1)" by (cases rs1)
        from implementsD(2) [OF call wf vx Inr [unfolded rs1]] obtain t where
          s1: "s1 = s @ t" and wf1: "wfStore s1" and vr: "validValue s1 r" and
          pr: "callTransform p (absValue s x) = Inr (absValue s1 r)" by blast
        let ?c = "ObjectCell (AList.update k r (hOwnEntries s v))"
        note wf2 = fresh_object_abs(1) [OF wf v s1 wf1 vr, of k]
        note carry = fresh_object_abs(2) [OF wf v s1 wf1 vr, of k]
        have v2: "validValue (s1 @ [?c]) (HRef (length s1))" by simp
        from res hk \<open>hGetProperty s v k = Inr x\<close> Inr rs1 have
          "hReduceKeyTransformers hkts (HRef (length s1)) (s1 @ [?c]) = Inr (r', s')"
          by (simp add: Let_def)
        from implementsD(2) [OF Cons.IH wf2 v2 this] obtain t2 where
          "s' = (s1 @ [?c]) @ t2" and "wfStore s'" and "validValue s' r'" and
          "reduceKeyTransformers pkts (absValue (s1 @ [?c]) (HRef (length s1))) =
             Inr (absValue s' r')" by blast
        then show ?thesis
          using carry gp pr pk k s1 by simp
      qed
    qed
  qed
qed

lemma relMaybe_isUndefined: "relMaybe h p \<Longrightarrow> isUndefined h = isUndefined p"
  by (cases h; cases p) auto

lemma list_all2_filter:
  assumes "list_all2 R xs ys" and "\<And>x y. R x y \<Longrightarrow> P x = Q y"
  shows "list_all2 R (filter P xs) (filter Q ys)"
  using assms by (induction xs ys rule: list_all2_induct) auto

lemma hMakeTransform_implements:
  "pureTransformer T \<Longrightarrow> implements (hMakeTransform T c) (makeTransform (base T) c)"
  by (simp add: pureTransformer_def hMakeTransform_def makeTransform_def)

lemma hMakeListTransform_implements:
  "pureTransformer T \<Longrightarrow> implements (hMakeListTransform T c) (makeListTransform (base T) c)"
  using hArrayMap_implements [OF hMakeTransform_implements, of T c]
  by (simp add: hMakeListTransform_def makeListTransform_def)

lemma hMiddlewareReducer_Initial:
  assumes "pureTransformer T" and "wrapping hctx = wrapping pctx"
  shows "relMaybe (hMiddlewareReducer T (Initial hv) n hctx)
                  (middlewareReducer (base T) (Initial pv) n pctx)"
  using assms
  by (simp add: hMiddlewareReducer_def middlewareReducer_def Let_def
      hMakeTransform_implements hMakeListTransform_implements)

lemma hMiddlewareReducer_ChildRecord:
  assumes "pureTransformer T" and "wrapping hctx = wrapping pctx"
      and "list_all2 relKey hr pr"
  shows "relMaybe (hMiddlewareReducer T (ChildRecord hr) n hctx)
                  (middlewareReducer (base T) (ChildRecord pr) n pctx)"
proof (cases hr)
  case Nil
  with assms(3) have "pr = []" by simp
  with Nil assms(1,2) show ?thesis
    by (simp add: hMiddlewareReducer_def middlewareReducer_def Let_def
      hMakeTransform_implements hMakeListTransform_implements)
next
  case (Cons x xs)
  with assms(3) have "pr \<noteq> []" by auto
  moreover have "implements (hComposeKeyTransformers hr) (composeKeyTransformers pr)"
    using hReduceKeyTransformers_implements [OF assms(3)]
    by (simp add: hComposeKeyTransformers_def composeKeyTransformers_def)
  ultimately show ?thesis
    using Cons by (simp add: hMiddlewareReducer_def middlewareReducer_def Let_def)
qed

lemma walk_refines:
  fixes T :: storeTransformer
  assumes pure: "pureTransformer T"
  shows "r = hMiddlewareReducer T \<Longrightarrow> wrapping (ctx :: storeTransform nodeCtx) = wrapping pctx \<Longrightarrow>
           relMaybe (reduceOverArgType a ctx r)
                    (reduceOverArgType a pctx (middlewareReducer (base T)))"
    and "r1 = hMiddlewareReducer T \<Longrightarrow> wrapping (ctx1 :: storeTransform nodeCtx) = wrapping pctx1 \<Longrightarrow>
           relMaybe (reduceOverWrappedType t ctx1 r1)
                    (reduceOverWrappedType t pctx1 (middlewareReducer (base T)))"
    and "r2 = hMiddlewareReducer T \<Longrightarrow> wrapping (ctx2 :: storeTransform nodeCtx) = wrapping pctx2 \<Longrightarrow>
           relMaybe (reduceOverObjectType t2 ctx2 r2)
                    (reduceOverObjectType t2 pctx2 (middlewareReducer (base T)))"
proof (induction a ctx r and t ctx1 r1 and t2 ctx2 r2 arbitrary: pctx and pctx1 and pctx2
       rule: reduceOverArgType_reduceOverWrappedType_reduceOverObjectType.induct)
  case (1 argType ctx reducer)
  obtain n w where u: "unwrapType argType = (n, w)" by (cases "unwrapType argType")
  let ?h = "reducer (Initial (initialNodeValue ctx)) (ArgTypeNode argType) (ctx\<lparr>wrapping := w\<rparr>)"
  let ?p = "middlewareReducer (base T) (Initial (initialNodeValue pctx)) (ArgTypeNode argType)
              (pctx\<lparr>wrapping := w\<rparr>)"
  have first: "relMaybe ?h ?p"
    using 1(2) by (simp add: hMiddlewareReducer_Initial [OF pure])
  show ?case
  proof (cases "isUndefined ?h")
    case True
    then have "isUndefined ?p" using relMaybe_isUndefined [OF first] by simp
    moreover have "relMaybe (reduceOverWrappedType n (ctx\<lparr>wrapping := w\<rparr>) reducer)
             (reduceOverWrappedType n (pctx\<lparr>wrapping := w\<rparr>) (middlewareReducer (base T)))"
      using 1(1) [OF u [symmetric] refl refl _ 1(2), of "pctx\<lparr>wrapping := w\<rparr>"] True
      by simp
    ultimately show ?thesis
      using True u
      by (simp add: reduceOverArgType.simps [of argType ctx]
          reduceOverArgType.simps [of argType pctx])
  next
    case False
    then have "\<not> isUndefined ?p" using relMaybe_isUndefined [OF first] by simp
    with False first u show ?thesis
      by (simp add: reduceOverArgType.simps [of argType ctx]
          reduceOverArgType.simps [of argType pctx])
  qed
next
  case (2 argType ctx reducer)
  let ?h = "reducer (Initial (initialNodeValue ctx)) (ArgTypeNode (TypeRef argType)) ctx"
  let ?p = "middlewareReducer (base T) (Initial (initialNodeValue pctx1))
              (ArgTypeNode (TypeRef argType)) pctx1"
  have first: "relMaybe ?h ?p"
    using 2(2,3) by (simp add: hMiddlewareReducer_Initial [OF pure])
  show ?case
  proof (cases "isUndefined ?h")
    case True
    then have pu: "isUndefined ?p" using relMaybe_isUndefined [OF first] by simp
    show ?thesis
    proof (cases "isInputObjectType argType")
      case obj: True
      have "relMaybe (reduceOverObjectType argType ctx reducer)
             (reduceOverObjectType argType pctx1 (middlewareReducer (base T)))"
        using 2(1) [OF refl _ obj 2(2,3)] True by simp
      with True pu obj show ?thesis
        by (simp add: reduceOverWrappedType.simps [of argType ctx]
            reduceOverWrappedType.simps [of argType pctx1])
    next
      case False
      with True pu show ?thesis
        by (simp add: reduceOverWrappedType.simps [of argType ctx]
            reduceOverWrappedType.simps [of argType pctx1])
    qed
  next
    case False
    then have "\<not> isUndefined ?p" using relMaybe_isUndefined [OF first] by simp
    with False first show ?thesis
      by (simp add: reduceOverWrappedType.simps [of argType ctx]
          reduceOverWrappedType.simps [of argType pctx1])
  qed
next
  case (3 argType ctx reducer)
  let ?hs = "map (\<lambda>(key, argType).
                  (key, reduceOverArgType (FieldRef argType)
                          \<lparr>key = Some key, wrapping = [],
                           initialNodeValue = initialNodeValue ctx\<rparr> reducer))
             (getFields argType)"
  let ?ps = "map (\<lambda>(key, argType).
                  (key, reduceOverArgType (FieldRef argType)
                          \<lparr>key = Some key, wrapping = [],
                           initialNodeValue = initialNodeValue pctx2\<rparr>
                          (middlewareReducer (base T))))
             (getFields argType)"
  have "list_all2 relKey ?hs ?ps"
    unfolding list_all2_map1 list_all2_map2
  proof (rule list_all2_same [THEN iffD2], clarify)
    fix k f
    assume m: "(k, f) \<in> set (getFields argType)"
    show "relKey
        (k, reduceOverArgType (FieldRef f)
              \<lparr>key = Some k, wrapping = [], initialNodeValue = initialNodeValue ctx\<rparr> reducer)
        (k, reduceOverArgType (FieldRef f)
              \<lparr>key = Some k, wrapping = [], initialNodeValue = initialNodeValue pctx2\<rparr>
              (middlewareReducer (base T)))"
      using 3(1) [OF m refl 3(2)] by (simp add: relKey_def)
  qed
  then have "list_all2 relKey (filter (\<lambda>(_, v). \<not> isUndefined v) ?hs)
                              (filter (\<lambda>(_, v). \<not> isUndefined v) ?ps)"
    by (rule list_all2_filter) (auto simp: relKey_def dest: relMaybe_isUndefined)
  from hMiddlewareReducer_ChildRecord [OF pure 3(3) this] 3(2) show ?case
    by (simp add: reduceOverObjectType.simps [of argType ctx]
        reduceOverObjectType.simps [of argType pctx2])
qed

lemma hBuildResolverMiddleware_children:
  "hBuildResolverMiddleware T argDefs =
     hMiddlewareReducer T (ChildRecord (hChildEntriesOf T argDefs)) (ArgDefsNode argDefs)
       \<lparr>key = None, wrapping = [], initialNodeValue = Null\<rparr>"
  by (simp add: hBuildResolverMiddleware_def reduceOverArgDefs_def hChildEntriesOf_def Let_def)

lemma reduceOverArgDef_refines:
  assumes "pureTransformer T" and "wrapping (hctx :: storeTransform nodeCtx) = wrapping pctx"
  shows "relMaybe (reduceOverArgDef d hctx (hMiddlewareReducer T))
                  (reduceOverArgDef d pctx (middlewareReducer (base T)))"
proof -
  let ?h = "hMiddlewareReducer T (Initial (initialNodeValue hctx)) (ArgDefNode d) hctx"
  let ?p = "middlewareReducer (base T) (Initial (initialNodeValue pctx)) (ArgDefNode d) pctx"
  have first: "relMaybe ?h ?p" using assms by (rule hMiddlewareReducer_Initial)
  note u = relMaybe_isUndefined [OF first]
  show ?thesis
  proof (cases "isUndefined ?h")
    case True
    with u walk_refines(1) [OF assms(1) refl assms(2), of "TypeRef (type d)"] show ?thesis
      by (simp add: reduceOverArgDef_def Let_def)
  next
    case False
    with u first show ?thesis by (simp add: reduceOverArgDef_def Let_def)
  qed
qed

lemma hChildEntriesOf_refines:
  assumes "pureTransformer T"
  shows "list_all2 relKey (hChildEntriesOf T argDefs) (childEntriesOf (base T) argDefs)"
  unfolding hChildEntriesOf_def childEntriesOf_def
proof (rule list_all2_filter)
  show "list_all2 relKey
     (map (\<lambda>(key, argDef).
              (key, reduceOverArgDef argDef
                      \<lparr>key = Some key, wrapping = [], initialNodeValue = Null\<rparr>
                      (hMiddlewareReducer T))) argDefs)
     (map (\<lambda>(key, argDef).
              (key, reduceOverArgDef argDef
                      \<lparr>key = Some key, wrapping = [], initialNodeValue = Null\<rparr>
                      (middlewareReducer (base T)))) argDefs)"
    unfolding list_all2_map1 list_all2_map2
    by (rule list_all2_same [THEN iffD2])
       (auto simp: relKey_def intro!: reduceOverArgDef_refines [OF assms])
qed (auto simp: relKey_def dest: relMaybe_isUndefined)

lemma hReduceKeyTransformers_ref:
  assumes "list_all2 relKey hkts pkts"
  shows "wfStore s \<Longrightarrow> a0 < length s \<Longrightarrow> hReduceKeyTransformers hkts (HRef a0) s = Inr (r, s') \<Longrightarrow>
           \<exists>a. r = HRef a \<and> a0 \<le> a"
  using assms
proof (induction hkts pkts arbitrary: s a0 rule: list_all2_induct)
  case Nil
  then show ?case by auto
next
  case (Cons hk hkts pk pkts)
  obtain k h where hk: "hk = (k, h)" by (cases hk)
  from Cons.hyps(1) hk have rel: "relMaybe h (snd pk)" by (simp add: relKey_def)
  note call = hCallTransform_implements [OF rel]
  have v: "validValue s (HRef a0)" using Cons.prems(2) by simp
  from Cons.prems(3) hk obtain x where x: "hGetProperty s (HRef a0) k = Inr x"
    by (auto simp: Let_def split: sum.splits simp del: hGetProperty.simps)
  have vx: "validValue s x" using hGetProperty_valid [OF Cons.prems(1) v x] .
  from Cons.prems(3) hk x obtain r1 s1 where
    c: "hCallTransform h x s = Inr (r1, s1)" and
    rest: "hReduceKeyTransformers hkts (HRef (length s1))
             (s1 @ [ObjectCell (AList.update k r1 (hOwnEntries s (HRef a0)))]) = Inr (r, s')"
    by (auto simp: Let_def split: sum.splits simp del: hGetProperty.simps hOwnEntries.simps)
  from implementsD(2) [OF call Cons.prems(1) vx c] obtain t where
    s1: "s1 = s @ t" and wf1: "wfStore s1" and vr: "validValue s1 r1" by blast
  note wf2 = fresh_object_abs(1) [OF Cons.prems(1) v s1 wf1 vr, of k]
  from Cons.IH [OF wf2 _ rest] obtain a where "r = HRef a" and "length s1 \<le> a" by auto
  with s1 Cons.prems(2) show ?case by auto
qed

lemma absValue_not_num:
  "wfStore s \<Longrightarrow> validValue s v \<Longrightarrow> absValue s v = VNum n \<Longrightarrow> v = HNum n"
  by (cases v) (auto simp: absValue_HRef split: cell.splits)

lemma pureTransformer_double: "pureTransformer doubleStorePlugin"
  unfolding pureTransformer_def
proof
  fix c
  show "implements (\<lambda>input s. storeTransform doubleStorePlugin input c s)
          (\<lambda>input. transform (base doubleStorePlugin) input c)"
  proof (rule implementsI)
    fix s v e
    assume "wfStore s" "validValue s v" "storeTransform doubleStorePlugin v c s = Inl e"
    then show "transform (base doubleStorePlugin) (absValue s v) c = Inl e"
      by (cases v) (auto simp: doubleStorePlugin_def doublePlugin_def absValue_HRef
          split: cell.splits)
  next
    fix s v r s'
    assume "wfStore s" "validValue s v" "storeTransform doubleStorePlugin v c s = Inr (r, s')"
    then show "(\<exists>t. s' = s @ t) \<and> wfStore s' \<and> validValue s' r \<and>
        transform (base doubleStorePlugin) (absValue s v) c = Inr (absValue s' r)"
      by (cases v) (auto simp: doubleStorePlugin_def doublePlugin_def)
  qed
qed

lemma wfStore_numberStore: "wfStore numberStore"
  by (simp add: wfStore_def numberStore_def)


section \<open>Where the walk descends\<close>

text \<open>
  C2, as the code has it. At a definition, at a type reference and at the terminal named
  type, the walk asks the reducer first. A result that is not \<open>undefined\<close> is the node's
  result and nothing below the node is visited; the result \<open>undefined\<close>, and only it, sends
  the walk one layer down. The initial node value plays no part in the test, whatever the
  caller chose for it.
\<close>

theorem descent_signal_is_undefined:
  fixes reducer :: "'t reducer"
  shows
  "(let v = reducer (Initial (initialNodeValue ctx)) (ArgDefNode argDef) ctx in
      if isUndefined v
      then reduceOverArgDef argDef ctx reducer = reduceOverArgType (TypeRef (type argDef)) ctx reducer \<and>
           visitsArgDef argDef ctx reducer =
             ArgDefNode argDef # visitsArgType (TypeRef (type argDef)) ctx reducer
      else reduceOverArgDef argDef ctx reducer = v \<and>
           visitsArgDef argDef ctx reducer = [ArgDefNode argDef]) \<and>
   (let ctx' = ctx\<lparr>wrapping := snd (unwrapType argType)\<rparr>;
        v = reducer (Initial (initialNodeValue ctx)) (ArgTypeNode argType) ctx' in
      if isUndefined v
      then reduceOverArgType argType ctx reducer =
             reduceOverWrappedType (fst (unwrapType argType)) ctx' reducer \<and>
           visitsArgType argType ctx reducer =
             ArgTypeNode argType # visitsWrappedType (fst (unwrapType argType)) ctx' reducer
      else reduceOverArgType argType ctx reducer = v \<and>
           visitsArgType argType ctx reducer = [ArgTypeNode argType]) \<and>
   (let v = reducer (Initial (initialNodeValue ctx)) (ArgTypeNode (TypeRef namedType)) ctx in
      if isUndefined v
      then (if isInputObjectType namedType
            then reduceOverWrappedType namedType ctx reducer =
                   reduceOverObjectType namedType ctx reducer \<and>
                 visitsWrappedType namedType ctx reducer =
                   ArgTypeNode (TypeRef namedType) # visitsObjectType namedType ctx reducer
            else reduceOverWrappedType namedType ctx reducer = Undefined \<and>
                 visitsWrappedType namedType ctx reducer = [ArgTypeNode (TypeRef namedType)])
      else reduceOverWrappedType namedType ctx reducer = v \<and>
           visitsWrappedType namedType ctx reducer = [ArgTypeNode (TypeRef namedType)])"
  by (simp add: Let_def reduceOverArgDef_def visitsArgDef_def
      reduceOverArgType.simps [of argType] visitsArgType.simps [of argType]
      reduceOverWrappedType.simps [of namedType] visitsWrappedType.simps [of namedType]
      split: prod.splits)

text \<open>
  C2 as stated fails: with the initial node value \<open>0\<close>, a reducer that returns exactly this
  value halts the walk at the first node, and a reducer that returns \<open>undefined\<close>, which is
  not this value, is taken down to the terminal type.
\<close>

theorem sentinel_halts_counterexample:
  "reduceOverArgDef (plainArg (GraphQLNonNull stringType)) sentinelCtx sentinelReducer = Defined 0 \<and>
   visitsArgDef (plainArg (GraphQLNonNull stringType)) sentinelCtx sentinelReducer =
     [ArgDefNode (plainArg (GraphQLNonNull stringType))] \<and>
   visitsArgDef (plainArg (GraphQLNonNull stringType)) sentinelCtx undefinedReducer =
     [ArgDefNode (plainArg (GraphQLNonNull stringType)),
      ArgTypeNode (TypeRef (GraphQLNonNull stringType)),
      ArgTypeNode (TypeRef stringType)]"
  by (simp add: reduceOverArgDef_def visitsArgDef_def visitsArgType.simps visitsWrappedType.simps
      plainArg_def stringType_def sentinelCtx_def sentinelReducer_def undefinedReducer_def)

section \<open>One annotated argument\<close>

text \<open>
  C1. One argument \<open>x\<close> of the tree carries a truthy configuration \<open>c\<close> under the
  transformer's name in its own extensions, and no other argument is annotated anywhere.
  Then the compiled function, called on a bag on whose value under \<open>x\<close> (what reading
  \<open>x\<close> from the bag gives) the transform returns \<open>r\<close>, returns a bag that holds \<open>r\<close> under
  \<open>x\<close> and, under every other key, what the input bag held.
\<close>

theorem single_scalar_position:
  assumes "configAt (extensionName T) (argExtensions d) = c" and "truthy c"
      and "\<forall>(k, d') \<in> set (pre @ post). \<not> argDefAnnotated (extensionName T) d'"
      and "transform T (objectGet bag x) c = Inr r"
  shows "\<exists>out. callTransform (buildResolverMiddleware T (pre @ (x, d) # post)) (VObj bag)
                  = Inr (VObj out) \<and>
               map_of out x = Some r \<and>
               (\<forall>k. k \<noteq> x \<longrightarrow> map_of out k = map_of bag k)"
proof -
  have pre: "childEntriesOf T pre = []" and post: "childEntriesOf T post = []"
    using assms(3) by (auto intro!: childEntriesOf_unannotated)
  have "childEntriesOf T [(x, d)] = [(x, Defined (makeTransform T c))]"
    using assms(1,2) by (simp add: childEntriesOf_def reduceOverArgDef_own)
  with pre post have
    "childEntriesOf T (pre @ (x, d) # post) = [(x, Defined (makeTransform T c))]"
    using childEntriesOf_append [of T pre "(x, d) # post"]
      childEntriesOf_append [of T "[(x, d)]" post] by simp
  then have "buildResolverMiddleware T (pre @ (x, d) # post) =
      Defined (composeKeyTransformers [(x, Defined (makeTransform T c))])"
    by (simp add: buildResolverMiddleware_children middlewareReducer_ChildRecord)
  then show ?thesis
    using assms(4)
    by (auto simp: composeKeyTransformers_def makeTransform_def update_conv')
qed

theorem single_scalar_position_witness:
  "\<exists>out. callTransform
            (buildResolverMiddleware expectPlugin
               [(''a'', plainArg (GraphQLNonNull stringType)),
                (''b'', annotatedArg ''expectPlugin'' (VObj [(''to'', VStr ''X'')]) stringType)])
            (VObj [(''a'', VStr ''keep''), (''b'', VStr ''old'')]) = Inr (VObj out) \<and>
         map_of out ''b'' = Some (VStr ''X'') \<and>
         map_of out ''a'' = Some (VStr ''keep'')"
  using single_scalar_position
    [of expectPlugin "annotatedArg ''expectPlugin'' (VObj [(''to'', VStr ''X'')]) stringType"
        "VObj [(''to'', VStr ''X'')]" "[(''a'', plainArg (GraphQLNonNull stringType))]" "[]"
        "[(''a'', VStr ''keep''), (''b'', VStr ''old'')]" "''b''" "VStr ''X''"]
  by (auto simp: expectPlugin_def annotatedArg_def plainArg_def stringType_def configAt_def
      objectGet_def inherited_def methods_def argDefAnnotated_def)

section \<open>Lists\<close>

text \<open>
  C4, as the code has it. A terminal node is visited with the wrapper kinds that
  unwrapping gave: first the type reference that is unwrapped, then the named type it ends
  in, both with the same sequence of kinds. When such a node carries a truthy
  configuration \<open>c\<close>, the transform compiled for it is the element-mapping transform of \<open>c\<close>
  if the list kind occurs anywhere in that sequence, and the plain transform of \<open>c\<close> if it
  does not occur; and the list kind occurs in the sequence exactly when the type has a
  list layer at some depth, outermost or not. (An argument definition that carries the
  configuration itself is visited before anything is unwrapped: it is no terminal node.)
\<close>

theorem list_wrapped_iff_list_anywhere:
  assumes "truthy c"
      and "c = getExtensions T (ArgTypeNode a) \<or>
           \<not> truthy (getExtensions T (ArgTypeNode a)) \<and>
           c = getExtensions T (ArgTypeNode (TypeRef (fst (unwrapType a))))"
  shows "reduceOverArgType a ctx (middlewareReducer T) =
           (if KList \<in> set (snd (unwrapType a))
            then Defined (makeListTransform T c) else Defined (makeTransform T c)) \<and>
         (KList \<in> set (snd (unwrapType a)) \<longleftrightarrow> hasListWrapper (typeOfArgType a))"
proof -
  obtain n w where u: "unwrapType a = (n, w)" by (cases "unwrapType a")
  from assms(2) show ?thesis
  proof
    assume "c = getExtensions T (ArgTypeNode a)"
    with assms(1) u KList_unwrapType [of a] show ?thesis
      by (simp add: reduceOverArgType.simps [of a] middlewareReducer_Initial
          del: getExtensions_type getExtensions_field)
  next
    assume "\<not> truthy (getExtensions T (ArgTypeNode a)) \<and>
           c = getExtensions T (ArgTypeNode (TypeRef (fst (unwrapType a))))"
    with assms(1) u KList_unwrapType [of a] show ?thesis
      by (simp add: reduceOverArgType.simps [of a] reduceOverWrappedType.simps [of n]
          middlewareReducer_Initial
          del: getExtensions_type getExtensions_field)
  qed
qed

text \<open>
  C4 as stated fails on the test's own field: its outermost wrapper is the non-null one
  (and so is the innermost), yet its transform maps over the elements.
\<close>

theorem list_below_nonnull_counterexample:
  "snd (unwrapType (FieldRef expectedListField)) = [KNonNull, KList, KNonNull] \<and>
   callTransform
     (reduceOverArgType (FieldRef expectedListField) (fieldCtx ''expectedList'')
        (middlewareReducer expectPlugin))
     (VList [VStr ''Oh'', VStr ''my'']) =
     Inr (VList [VStr ''TRANSFORMED LIST'', VStr ''TRANSFORMED LIST'']) \<and>
   makeTransform expectPlugin (VObj [(''to'', VStr ''TRANSFORMED LIST'')])
     (VList [VStr ''Oh'', VStr ''my'']) = Inr (VStr ''TRANSFORMED LIST'')"
  by (simp add: expectedListField_def stringType_def fieldCtx_def reduceOverArgType.simps
      middlewareReducer_Initial configAt_def lookupProp_def makeListTransform_def
      makeTransform_def expectPlugin_def objectGet_def)

theorem list_wrapped_iff_list_anywhere_witness:
  "reduceOverArgType (FieldRef expectedListField) (fieldCtx ''expectedList'')
      (middlewareReducer expectPlugin) =
     Defined (makeListTransform expectPlugin (VObj [(''to'', VStr ''TRANSFORMED LIST'')])) \<and>
   hasListWrapper (typeOfArgType (FieldRef expectedListField))"
  using list_wrapped_iff_list_anywhere
    [of "VObj [(''to'', VStr ''TRANSFORMED LIST'')]" expectPlugin "FieldRef expectedListField"
        "fieldCtx ''expectedList''"]
  by (simp add: expectedListField_def stringType_def configAt_def lookupProp_def
      expectPlugin_def)
text \<open>
  C3, as the code has it. A compiled function closes over the key \<open>x\<close> with the
  element-mapping transform of configuration \<open>c\<close>; the keys are distinct and the other
  keys' transformers return. If the bag holds an array under \<open>x\<close> on whose elements the
  transform returns, the call returns a bag that holds under \<open>x\<close> the array of the
  transformed elements, in order (an empty array for an empty one), and leaves the keys
  outside the function alone. If reading \<open>x\<close> from the bag gives \<open>undefined\<close> or \<open>null\<close>,
  nothing is passed through: the call throws a \<open>TypeError\<close>.
\<close>

theorem list_position_maps_elements:
  assumes "distinct (map fst kts)"
      and "(x, Defined (makeListTransform T c)) \<in> set kts"
      and "\<forall>(k, tr) \<in> set kts. k \<noteq> x \<longrightarrow> (\<exists>r. callTransform tr (objectGet bag k) = Inr r)"
  shows "(\<forall>vs. objectGet bag x = VList vs \<and> (\<forall>v \<in> set vs. \<exists>r. transform T v c = Inr r) \<longrightarrow>
            (\<exists>out rs. composeKeyTransformers kts (VObj bag) = Inr (VObj out) \<and>
                lookupProp out x = VList rs \<and>
                list_all2 (\<lambda>v r. transform T v c = Inr r) vs rs \<and>
                (\<forall>k. k \<notin> fst ` set kts \<longrightarrow> map_of out k = map_of bag k))) \<and>
         (objectGet bag x = VUndefined \<or> objectGet bag x = VNull \<longrightarrow>
            composeKeyTransformers kts (VObj bag) = Inl TypeError)"
proof (intro conjI allI impI)
  fix vs
  assume a: "objectGet bag x = VList vs \<and> (\<forall>v \<in> set vs. \<exists>r. transform T v c = Inr r)"
  then have "\<forall>v \<in> set vs. \<exists>r. makeTransform T c v = Inr r"
    by (simp add: makeTransform_def)
  from mapThrowing_returns [OF this] obtain rs where
    rs: "mapThrowing (makeTransform T c) vs = Inr rs" by blast
  have callx: "callTransform (Defined (makeListTransform T c)) (objectGet bag x) = Inr (VList rs)"
    using a rs by (simp add: makeListTransform_def)
  have all: "\<forall>(k, tr) \<in> set kts. \<exists>r. callTransform tr (objectGet bag k) = Inr r"
  proof (intro ballI, clarify)
    fix k tr
    assume m: "(k, tr) \<in> set kts"
    show "\<exists>r. callTransform tr (objectGet bag k) = Inr r"
    proof (cases "k = x")
      case True
      with m assms(1,2) have "tr = Defined (makeListTransform T c)"
        by (metis eq_key_imp_eq_value)
      with True callx show ?thesis by blast
    next
      case False
      with m assms(3) show ?thesis by blast
    qed
  qed
  from reduceKeyTransformers_returns [OF assms(1) all] obtain res where
    res: "reduceKeyTransformers kts (VObj bag) = Inr res" by blast
  from reduceKeyTransformers_result [OF assms(1) res] obtain out where
    out: "res = VObj out" and
    each: "\<forall>(k, tr) \<in> set kts.
             callTransform tr (objectGet bag k) = Inr (lookupProp out k) \<and> k \<in> fst ` set out" and
    frame: "\<forall>k. k \<notin> fst ` set kts \<longrightarrow> map_of out k = map_of bag k"
    by blast
  from each assms(2) callx have "lookupProp out x = VList rs" by auto
  moreover from mapThrowing_Inr [OF rs] have "list_all2 (\<lambda>v r. transform T v c = Inr r) vs rs"
    by (simp add: makeTransform_def)
  ultimately show "\<exists>out rs. composeKeyTransformers kts (VObj bag) = Inr (VObj out) \<and>
      lookupProp out x = VList rs \<and>
      list_all2 (\<lambda>v r. transform T v c = Inr r) vs rs \<and>
      (\<forall>k. k \<notin> fst ` set kts \<longrightarrow> map_of out k = map_of bag k)"
    using res out frame by (auto simp: composeKeyTransformers_def)
next
  assume a: "objectGet bag x = VUndefined \<or> objectGet bag x = VNull"
  from assms(2) obtain ks1 ks2 where
    split: "kts = ks1 @ (x, Defined (makeListTransform T c)) # ks2"
    by (auto dest: split_list)
  have before: "\<forall>(k, tr') \<in> set ks1. \<exists>r. callTransform tr' (objectGet bag k) = Inr r"
  proof (intro ballI, clarify)
    fix k tr'
    assume m: "(k, tr') \<in> set ks1"
    with assms(1) split have "k \<noteq> x" by force
    moreover from m split have "(k, tr') \<in> set kts" by simp
    ultimately show "\<exists>r. callTransform tr' (objectGet bag k) = Inr r"
      using assms(3) by blast
  qed
  have "callTransform (Defined (makeListTransform T c)) (objectGet bag x) = Inl TypeError"
    using a by (auto simp: makeListTransform_def)
  from reduceKeyTransformers_throws_at [OF assms(1) [unfolded split] before this]
  show "composeKeyTransformers kts (VObj bag) = Inl TypeError"
    by (simp add: composeKeyTransformers_def split)
qed

theorem list_position_maps_elements_witness:
  "composeKeyTransformers [(''xs'', Defined (makeListTransform doublePlugin (VObj [])))]
     (VObj [(''xs'', VList [VNum 1, VNum 2, VNum 3])]) =
     Inr (VObj [(''xs'', VList [VNum 2, VNum 4, VNum 6])]) \<and>
   composeKeyTransformers [(''xs'', Defined (makeListTransform doublePlugin (VObj [])))]
     (VObj [(''xs'', VList [])]) = Inr (VObj [(''xs'', VList [])]) \<and>
   composeKeyTransformers [(''xs'', Defined (makeListTransform doublePlugin (VObj [])))]
     (VObj []) = Inl TypeError"
  using list_position_maps_elements
    [of "[(''xs'', Defined (makeListTransform doublePlugin (VObj [])))]" "''xs''" doublePlugin
        "VObj []" "[(''xs'', VList [VNum 1, VNum 2, VNum 3])]"]
    list_position_maps_elements
    [of "[(''xs'', Defined (makeListTransform doublePlugin (VObj [])))]" "''xs''" doublePlugin
        "VObj []" "[]"]
  by (simp add: composeKeyTransformers_def makeListTransform_def makeTransform_def
      doublePlugin_def lookupProp_def objectGet_def inherited_def methods_def)

text \<open>
  C3 as stated fails for the absent sequence: on the tree with a nullable list field, the
  compiled function maps a present list, and throws when the field is missing or \<open>null\<close>.
\<close>

theorem absent_list_throws_counterexample:
  "callTransform (buildResolverMiddleware doublePlugin nullableListDefs)
     (VObj [(''input'', VObj [(''xs'', VList [VNum 1, VNum 2, VNum 3])])]) =
     Inr (VObj [(''input'', VObj [(''xs'', VList [VNum 2, VNum 4, VNum 6])])]) \<and>
   callTransform (buildResolverMiddleware doublePlugin nullableListDefs)
     (VObj [(''input'', VObj [])]) = Inl TypeError \<and>
   callTransform (buildResolverMiddleware doublePlugin nullableListDefs)
     (VObj [(''input'', VObj [(''xs'', VNull)])]) = Inl TypeError"
  by (simp add: nullableListDefs_def plainArg_def buildResolverMiddleware_children
      childEntriesOf_def reduceOverArgDef_def reduceOverArgType.simps reduceOverWrappedType.simps
      reduceOverObjectType.simps middlewareReducer_ChildRecord middlewareReducer_Initial
      composeKeyTransformers_def makeListTransform_def makeTransform_def
      doublePlugin_def configAt_def lookupProp_def objectGet_def inherited_def methods_def)
section \<open>Nothing annotated, something annotated\<close>




section \<open>A transform that throws\<close>

text \<open>
  C6. The keys before \<open>k\<close> have been processed and gave the carry; the transformer under
  \<open>k\<close> is a plain transform, an element-mapping transform or the compiled function of a
  nested object, and while it works on the value under \<open>k\<close> the caller's transform throws
  \<open>e\<close>. Then the compiled function returns no bag: it throws the same \<open>e\<close>, whatever keys
  come after \<open>k\<close>, and no transformer of a later key has been called.
\<close>

theorem throw_propagates:
  assumes "reduceKeyTransformers before args = Inr carry"
      and "getProperty carry k = Inr v"
      and "tr = Defined (makeTransform T c) \<and> transform T v c = Inl e \<or>
           tr = Defined (makeListTransform T c) \<and>
             (\<exists>pre x post ys. v = VList (pre @ x # post) \<and>
                 mapThrowing (makeTransform T c) pre = Inr ys \<and> transform T x c = Inl e) \<or>
           tr = Defined (composeKeyTransformers inner) \<and> composeKeyTransformers inner v = Inl e"
  shows "composeKeyTransformers (before @ (k, tr) # after) args = Inl e \<and>
         appliedKeys (before @ (k, tr) # after) args = map fst before @ [k]"
proof -
  have "callTransform tr v = Inl e"
    using assms(3)
  proof (elim disjE conjE exE)
    assume "tr = Defined (makeTransform T c)" and "transform T v c = Inl e"
    then show ?thesis by (simp add: makeTransform_def)
  next
    fix pre x post ys
    assume tr: "tr = Defined (makeListTransform T c)" and v: "v = VList (pre @ x # post)"
      and pre: "mapThrowing (makeTransform T c) pre = Inr ys" and x: "transform T x c = Inl e"
    from x have "makeTransform T c x = Inl e" by (simp add: makeTransform_def)
    from mapThrowing_throws [OF pre this, of post] show ?thesis
      using tr v by (simp add: makeListTransform_def)
  next
    assume "tr = Defined (composeKeyTransformers inner)"
      and "composeKeyTransformers inner v = Inl e"
    then show ?thesis by simp
  qed
  with assms(1,2) show ?thesis
    by (simp add: composeKeyTransformers_def reduceKeyTransformers_append appliedKeys_append)
qed

theorem throw_propagates_witness:
  "composeKeyTransformers
     [(''a'', Defined (makeTransform strictPlugin (VObj [(''to'', VStr ''A'')]))),
      (''b'', Defined (makeTransform strictPlugin (VObj [(''wrong'', VNum 1)]))),
      (''c'', Defined (makeTransform strictPlugin (VObj [(''to'', VStr ''C'')])))]
     (VObj [(''a'', VNum 1), (''b'', VNum 2), (''c'', VNum 3)]) =
     Inl (Thrown (VStr ''invalid configuration'')) \<and>
   appliedKeys
     [(''a'', Defined (makeTransform strictPlugin (VObj [(''to'', VStr ''A'')]))),
      (''b'', Defined (makeTransform strictPlugin (VObj [(''wrong'', VNum 1)]))),
      (''c'', Defined (makeTransform strictPlugin (VObj [(''to'', VStr ''C'')])))]
     (VObj [(''a'', VNum 1), (''b'', VNum 2), (''c'', VNum 3)]) = [''a'', ''b'']"
  using throw_propagates
    [of "[(''a'', Defined (makeTransform strictPlugin (VObj [(''to'', VStr ''A'')])))]"
        "VObj [(''a'', VNum 1), (''b'', VNum 2), (''c'', VNum 3)]"
        "VObj [(''a'', VStr ''A''), (''b'', VNum 2), (''c'', VNum 3)]"
        "''b''" "VNum 2"
        "Defined (makeTransform strictPlugin (VObj [(''wrong'', VNum 1)]))"
        strictPlugin "VObj [(''wrong'', VNum 1)]" "Thrown (VStr ''invalid configuration'')"
        "[]"
        "[(''c'', Defined (makeTransform strictPlugin (VObj [(''to'', VStr ''C'')])))]"]
  by (simp add: makeTransform_def strictPlugin_def objectGet_def inherited_def methods_def)

section \<open>The extractor\<close>

text \<open>
  C7, as the code has it: \<open>buildResolverMiddleware\<close> never calls the extractor, so its
  result is the same whatever the extractor is, one that throws on every input included.
\<close>

theorem compile_ignores_extractor:
  "buildResolverMiddleware (T\<lparr>extractConfig := e\<rparr>) argDefs = buildResolverMiddleware T argDefs"
  by (simp add: buildResolverMiddleware_def middlewareReducer_extractConfig)

text \<open>
  C7 as stated fails: the extractor rejects the options, the stored configuration is
  malformed, and the compile call returns a function all the same; the failure comes when
  that function is called.
\<close>

theorem malformed_annotation_deferred_counterexample:
  "extractConfig strictPlugin (VObj [(''wrong'', VNum 1)]) = Inl (Thrown (VStr ''invalid options'')) \<and>
   \<not> isUndefined (buildResolverMiddleware strictPlugin
        [(''x'', annotatedArg ''strictPlugin'' (VObj [(''wrong'', VNum 1)]) stringType)]) \<and>
   callTransform
     (buildResolverMiddleware strictPlugin
        [(''x'', annotatedArg ''strictPlugin'' (VObj [(''wrong'', VNum 1)]) stringType)])
     (VObj [(''x'', VStr ''v'')]) = Inl (Thrown (VStr ''invalid configuration''))"
  by (simp add: buildResolverMiddleware_children childEntriesOf_def reduceOverArgDef_own
      middlewareReducer_ChildRecord composeKeyTransformers_def makeTransform_def
      strictPlugin_def annotatedArg_def stringType_def configAt_def objectGet_def
      inherited_def methods_def)

section \<open>The root record\<close>

text \<open>
  C9 at a failing input. The tree has one argument, called \<open>extensions\<close>, annotated under
  the name \<open>other\<close> only. The transformer registered under the name \<open>extensions\<close> finds no
  annotation of its own, but its compiled function is built from the other name's
  annotation and changes with it; without that annotation nothing is compiled.
\<close>

theorem root_record_read_as_annotated:
  "\<not> argDefAnnotated (extensionName echoPlugin) (annotatedArg ''other'' (VNum 1) stringType) \<and>
   callTransform
     (buildResolverMiddleware echoPlugin
        [(''extensions'', annotatedArg ''other'' (VNum 1) stringType)])
     (VObj [(''extensions'', VStr ''v'')]) = Inr (VObj [(''other'', VNum 1)]) \<and>
   callTransform
     (buildResolverMiddleware echoPlugin
        [(''extensions'', annotatedArg ''other'' (VNum 2) stringType)])
     (VObj [(''extensions'', VStr ''v'')]) = Inr (VObj [(''other'', VNum 2)]) \<and>
   isUndefined (buildResolverMiddleware echoPlugin [(''extensions'', plainArg stringType)])"
  by (simp add: buildResolverMiddleware_children childEntriesOf_def reduceOverArgDef_undefined
      middlewareReducer_ChildRecord middlewareReducer_Initial makeTransform_def
      echoPlugin_def annotatedArg_def plainArg_def stringType_def argDefProperties_def
      argDefAnnotated_def configAt_def objectGet_def inherited_def methods_def
      getExtensions_def hasExtensions_def)
section \<open>Two calls with the same bag\<close>

text \<open>
  C8, as the code has it. The transformer is pure, some argument of the tree is annotated,
  and the bag is an object of a well-formed store. If the compiled function returns on the
  bag, it returns the address of a cell that did not exist before the call; a second call
  on the same bag, in the store the first call left, returns too, at another new address;
  the two outputs stand for the same value, which is the value the compiled function of
  the model on values returns; and every cell that existed before the two calls, the
  bag's included, is what it was.
\<close>

theorem repeated_calls:
  assumes "pureTransformer T"
      and "list_ex (\<lambda>(k, d). argDefAnnotated (extensionName (base T)) d) argDefs"
      and "wfStore s" and "bag < length s"
      and "hCallTransform (hBuildResolverMiddleware T argDefs) (HRef bag) s = Inr (r1, s1)"
  shows "\<exists>a1 a2 s2.
           r1 = HRef a1 \<and> length s \<le> a1 \<and> a1 < length s1 \<and>
           hCallTransform (hBuildResolverMiddleware T argDefs) (HRef bag) s1 = Inr (HRef a2, s2) \<and>
           length s1 \<le> a2 \<and> a2 < length s2 \<and> a1 \<noteq> a2 \<and>
           absValue s2 (HRef a1) = absValue s2 (HRef a2) \<and>
           callTransform (buildResolverMiddleware (base T) argDefs) (absValue s (HRef bag)) =
             Inr (absValue s2 (HRef a2)) \<and>
           take (length s) s2 = s"
proof -
  let ?hk = "hChildEntriesOf T argDefs" and ?pk = "childEntriesOf (base T) argDefs"
  note rel = hChildEntriesOf_refines [OF assms(1), of argDefs]
  have "map fst ?pk = map fst (filter (\<lambda>(k, d). argDefAnnotated (extensionName (base T)) d) argDefs)"
    by (rule childEntriesOf_keys)
  moreover from assms(2) have
    "filter (\<lambda>(k, d). argDefAnnotated (extensionName (base T)) d) argDefs \<noteq> []"
    by (auto simp: filter_empty_conv list_ex_iff)
  ultimately have pne: "?pk \<noteq> []" by auto
  with rel have hne: "?hk \<noteq> []" by auto
  have hb: "hBuildResolverMiddleware T argDefs = Defined (hComposeKeyTransformers ?hk)"
    using hne by (simp add: hBuildResolverMiddleware_children hMiddlewareReducer_def Let_def)
  have pb: "buildResolverMiddleware (base T) argDefs = Defined (composeKeyTransformers ?pk)"
    using pne by (simp add: buildResolverMiddleware_children middlewareReducer_ChildRecord)
  note imp = hReduceKeyTransformers_implements [OF rel]
  have v: "validValue s (HRef bag)" using assms(4) by simp
  from assms(5) hb have c1: "hReduceKeyTransformers ?hk (HRef bag) s = Inr (r1, s1)"
    by (simp add: hComposeKeyTransformers_def)
  from implementsD(2) [OF imp assms(3) v c1] obtain t where
    s1: "s1 = s @ t" and wf1: "wfStore s1" and vr1: "validValue s1 r1" and
    p1: "reduceKeyTransformers ?pk (absValue s (HRef bag)) = Inr (absValue s1 r1)" by blast
  from hReduceKeyTransformers_ref [OF rel assms(3,4) c1] obtain a0 where
    a0: "r1 = HRef a0" and "bag \<le> a0" by blast
  obtain hk hrest where hks: "?hk = hk # hrest" using hne by (cases ?hk) auto
  have fresh: "\<And>s0 r0 s0'. wfStore s0 \<Longrightarrow> bag < length s0 \<Longrightarrow>
      hReduceKeyTransformers ?hk (HRef bag) s0 = Inr (r0, s0') \<Longrightarrow>
      \<exists>a. r0 = HRef a \<and> length s0 \<le> a"
  proof -
    fix s0 r0 s0'
    assume wf0: "wfStore s0" and b0: "bag < length s0"
      and c0: "hReduceKeyTransformers ?hk (HRef bag) s0 = Inr (r0, s0')"
    obtain pk prest where pks: "?pk = pk # prest" and relk: "relKey hk pk"
      and relrest: "list_all2 relKey hrest prest"
      using rel hks by (auto simp: list_all2_Cons1)
    obtain k h where hk: "hk = (k, h)" by (cases hk)
    from relk hk have relh: "relMaybe h (snd pk)" by (simp add: relKey_def)
    note call = hCallTransform_implements [OF relh]
    have v0: "validValue s0 (HRef bag)" using b0 by simp
    from c0 hks hk obtain x where x: "hGetProperty s0 (HRef bag) k = Inr x"
      by (auto simp: Let_def split: sum.splits simp del: hGetProperty.simps)
    have vx: "validValue s0 x" using hGetProperty_valid [OF wf0 v0 x] .
    from c0 hks hk x obtain r' s' where
      c: "hCallTransform h x s0 = Inr (r', s')" and
      rest: "hReduceKeyTransformers hrest (HRef (length s'))
               (s' @ [ObjectCell (AList.update k r' (hOwnEntries s0 (HRef bag)))]) = Inr (r0, s0')"
      by (auto simp: Let_def split: sum.splits simp del: hGetProperty.simps hOwnEntries.simps)
    from implementsD(2) [OF call wf0 vx c] obtain t' where
      s': "s' = s0 @ t'" and wf': "wfStore s'" and vr': "validValue s' r'" by blast
    note wf2 = fresh_object_abs(1) [OF wf0 v0 s' wf' vr', of k]
    from hReduceKeyTransformers_ref [OF relrest wf2 _ rest] obtain a where
      "r0 = HRef a" and "length s' \<le> a" by auto
    with s' show "\<exists>a. r0 = HRef a \<and> length s0 \<le> a" by auto
  qed
  from fresh [OF assms(3,4) c1] obtain a1 where a1: "r1 = HRef a1" and f1: "length s \<le> a1"
    by blast
  from vr1 a1 have a1v: "a1 < length s1" by simp
  have v1: "validValue s1 (HRef bag)" using assms(4) s1 by simp
  have same: "absValue s1 (HRef bag) = absValue s (HRef bag)"
    using v s1 by (simp add: absValue_append)
  obtain res where res: "hReduceKeyTransformers ?hk (HRef bag) s1 = res" by simp
  have "\<exists>r2 s2. res = Inr (r2, s2)"
  proof (cases res)
    case (Inl e)
    with implementsD(1) [OF imp wf1 v1, of e] res same p1 show ?thesis by simp
  next
    case (Inr rs)
    then show ?thesis by (cases rs) simp
  qed
  then obtain r2 s2 where c2: "hReduceKeyTransformers ?hk (HRef bag) s1 = Inr (r2, s2)"
    using res by blast
  from implementsD(2) [OF imp wf1 v1 c2] obtain t2 where
    s2: "s2 = s1 @ t2" and wf2: "wfStore s2" and vr2: "validValue s2 r2" and
    p2: "reduceKeyTransformers ?pk (absValue s1 (HRef bag)) = Inr (absValue s2 r2)" by blast
  from fresh [OF wf1 _ c2] assms(4) s1 obtain a2 where a2: "r2 = HRef a2" and f2: "length s1 \<le> a2"
    by auto
  have "absValue s2 (HRef a1) = absValue s1 (HRef a1)"
    using a1v s2 by (simp add: absValue_append)
  with p1 p2 same a1 a2 have eq: "absValue s2 (HRef a1) = absValue s2 (HRef a2)" by simp
  have "take (length s) s2 = s" using s1 s2 by simp
  with a1 a2 f1 f2 a1v vr2 eq c2 hb pb p2 same show ?thesis
    by (auto simp: hComposeKeyTransformers_def composeKeyTransformers_def)
qed

theorem repeated_calls_witness:
  "\<exists>a1 a2 s2.
     HRef 1 = HRef a1 \<and> length numberStore \<le> a1 \<and>
     hCallTransform
       (hBuildResolverMiddleware doubleStorePlugin
          [(''n'', annotatedArg ''double'' (VObj []) (GraphQLScalarType ''Int'' None))])
       (HRef 0)
       (numberStore @ [ObjectCell [(''n'', HNum 42), (''keep'', HStr ''k'')]]) = Inr (HRef a2, s2) \<and>
     a1 \<noteq> a2 \<and> absValue s2 (HRef a1) = absValue s2 (HRef a2) \<and>
     take (length numberStore) s2 = numberStore"
proof -
  have first: "hCallTransform
       (hBuildResolverMiddleware doubleStorePlugin
          [(''n'', annotatedArg ''double'' (VObj []) (GraphQLScalarType ''Int'' None))])
       (HRef 0) numberStore =
     Inr (HRef 1, numberStore @ [ObjectCell [(''n'', HNum 42), (''keep'', HStr ''k'')]])"
    by (simp add: hBuildResolverMiddleware_children hChildEntriesOf_def reduceOverArgDef_def
        hMiddlewareReducer_def hComposeKeyTransformers_def hMakeTransform_def Let_def
        doubleStorePlugin_def doublePlugin_def annotatedArg_def configAt_def objectGet_def
        hLookupProp_def numberStore_def)
  have ann: "list_ex (\<lambda>(k, d). argDefAnnotated (extensionName (base doubleStorePlugin)) d)
      [(''n'', annotatedArg ''double'' (VObj []) (GraphQLScalarType ''Int'' None))]"
    by (simp add: argDefAnnotated_def annotatedArg_def configAt_def objectGet_def
        doubleStorePlugin_def doublePlugin_def)
  from repeated_calls [OF pureTransformer_double ann wfStore_numberStore _ first]
  show ?thesis by (auto simp: numberStore_def)
qed

text \<open>
  C8 as stated fails for a transform that is deterministic and writes into the object it
  is given: the call returns a new bag, and the object under \<open>box\<close> of the input bag has
  changed.
\<close>

theorem mutating_transform_counterexample:
  "hCallTransform
     (hBuildResolverMiddleware touchPlugin
        [(''box'', annotatedArg ''touch'' (VObj []) (GraphQLInputObjectType ''Box'' None []))])
     (HRef 1) boxStore =
     Inr (HRef 2,
          [ObjectCell [(''keep'', HStr ''k''), (''touched'', HBool True)],
           ObjectCell [(''box'', HRef 0)],
           ObjectCell [(''box'', HRef 0)]]) \<and>
   absValue boxStore (HRef 1) = VObj [(''box'', VObj [(''keep'', VStr ''k'')])] \<and>
   absValue
     [ObjectCell [(''keep'', HStr ''k''), (''touched'', HBool True)],
      ObjectCell [(''box'', HRef 0)],
      ObjectCell [(''box'', HRef 0)]] (HRef 1) =
     VObj [(''box'', VObj [(''keep'', VStr ''k''), (''touched'', VBool True)])]"
  by (simp add: hBuildResolverMiddleware_children hChildEntriesOf_def reduceOverArgDef_def
      hMiddlewareReducer_def hComposeKeyTransformers_def hMakeTransform_def Let_def
      touchPlugin_def annotatedArg_def configAt_def objectGet_def
      hLookupProp_def boxStore_def absValue_def absBelow.simps absAt.simps)

section \<open>A key that the bag does not hold\<close>

text \<open>
  C10, as the code has it. A compiled function is \<open>composeKeyTransformers\<close> of the key
  transformers it closes over; the keys of a record are distinct. One of them pairs the
  key \<open>k\<close> with the plain transform of configuration \<open>c\<close>, and the bag, an ordinary object,
  has no property \<open>k\<close> of its own. Then (every transformer returning on its value) the call
  returns an object that does hold \<open>k\<close>, and what it holds there is the transform applied to
  \<open>c\<close> and to what reading \<open>k\<close> from the bag gives: the property of that name which the bag
  inherits from \<open>Object.prototype\<close>, and \<open>undefined\<close> exactly when \<open>k\<close> names no property of
  \<open>Object.prototype\<close>.
\<close>

theorem missing_key_materialized:
  assumes "distinct (map fst keyTransformers)"
      and "(k, Defined (makeTransform T c)) \<in> set keyTransformers"
      and "map_of bag k = None"
      and "\<forall>(k', tr) \<in> set keyTransformers. \<exists>r. callTransform tr (objectGet bag k') = Inr r"
  shows "\<exists>out. composeKeyTransformers keyTransformers (VObj bag) = Inr (VObj out) \<and>
           k \<in> fst ` set out \<and>
           transform T (inherited [Prototype IObject] k) c = Inr (lookupProp out k) \<and>
           (inherited [Prototype IObject] k = VUndefined \<longleftrightarrow>
              k \<notin> fst ` set (prototypeMembers IObject))"
proof -
  from reduceKeyTransformers_returns [OF assms(1) assms(4)] obtain res where
    res: "reduceKeyTransformers keyTransformers (VObj bag) = Inr res" by blast
  from reduceKeyTransformers_result [OF assms(1) res] obtain out where
    out: "res = VObj out" and
    each: "\<forall>(k', tr) \<in> set keyTransformers.
             callTransform tr (objectGet bag k') = Inr (lookupProp out k') \<and> k' \<in> fst ` set out"
    by blast
  from each assms(2) have
    "callTransform (Defined (makeTransform T c)) (objectGet bag k) = Inr (lookupProp out k)"
    and "k \<in> fst ` set out" by auto
  moreover from assms(3) have "objectGet bag k = inherited [Prototype IObject] k"
    by (simp add: objectGet_def)
  moreover have "inherited [Prototype IObject] k = VUndefined \<longleftrightarrow>
      k \<notin> fst ` set (prototypeMembers IObject)"
    using inherited_undefined [of "Prototype IObject" k] by simp
  ultimately show ?thesis
    using res out by (auto simp: composeKeyTransformers_def makeTransform_def)
qed

theorem missing_key_materialized_witness:
  "\<exists>out. composeKeyTransformers
            [(''b'', Defined (makeTransform expectPlugin (VObj [(''to'', VStr ''X'')])))]
            (VObj [(''a'', VStr ''keep'')]) = Inr (VObj out) \<and>
         ''b'' \<in> fst ` set out \<and>
         transform expectPlugin VUndefined (VObj [(''to'', VStr ''X'')]) = Inr (lookupProp out ''b'')"
  using missing_key_materialized
    [of "[(''b'', Defined (makeTransform expectPlugin (VObj [(''to'', VStr ''X'')])))]"
        "''b''" expectPlugin "VObj [(''to'', VStr ''X'')]" "[(''a'', VStr ''keep'')]"]
  by (simp add: makeTransform_def expectPlugin_def objectGet_def inherited_def methods_def)

text \<open>
  C10 as stated fails for a key that names a property of \<open>Object.prototype\<close>: the bag does
  not contain \<open>toString\<close>, the transform returns its input, and the output bag holds under
  \<open>toString\<close> the built-in function, where the transform of \<open>undefined\<close> is \<open>undefined\<close>.
\<close>

theorem inherited_key_counterexample:
  "map_of [(''a'', VStr ''keep'')] ''toString'' = None \<and>
   transform identityPlugin VUndefined (VObj []) = Inr VUndefined \<and>
   callTransform
     (buildResolverMiddleware identityPlugin
        [(''toString'', annotatedArg ''identity'' (VObj []) stringType)])
     (VObj [(''a'', VStr ''keep'')]) =
     Inr (VObj [(''a'', VStr ''keep''),
                (''toString'', VBuiltin (PrototypeMethod IObject ''toString'' 0))])"
  by (simp add: buildResolverMiddleware_children childEntriesOf_def reduceOverArgDef_own
      middlewareReducer_ChildRecord composeKeyTransformers_def makeTransform_def
      identityPlugin_def annotatedArg_def stringType_def configAt_def objectGet_def
      inherited_def methods_def)

end
